theory Spec2Isabelle
  imports Main "HOL-Library.Sublist" "HOL-Library.Char_ord" "HOL-Library.List_Lexorder"
begin

section \<open>Strings\<close>

text \<open>
  Python strings are modelled as \<^typ>\<open>string\<close> (lists of 8-bit characters) and are
  read as ASCII text: \<open>str.lower\<close>, \<open>str.upper\<close>, the regular-expression classes
  \<open>\s\<close>, \<open>\d\<close>, \<open>\w\<close> and \<open>\b\<close> and the flag \<open>re.IGNORECASE\<close> are given their
  meaning on the ASCII range. \<open>a in b\<close> is \<^const>\<open>sublist\<close>, \<open>b.endswith(a)\<close> is
  \<^const>\<open>suffix\<close>.
\<close>

definition upper_letters :: string where
  "upper_letters = ''ABCDEFGHIJKLMNOPQRSTUVWXYZ''"

definition lower_letters :: string where
  "lower_letters = ''abcdefghijklmnopqrstuvwxyz''"

definition digits :: string where
  "digits = ''0123456789''"

definition lower_char :: "char \<Rightarrow> char" where
  "lower_char c = (case map_of (zip upper_letters lower_letters) c of Some d \<Rightarrow> d | None \<Rightarrow> c)"

definition upper_char :: "char \<Rightarrow> char" where
  "upper_char c = (case map_of (zip lower_letters upper_letters) c of Some d \<Rightarrow> d | None \<Rightarrow> c)"

definition lower :: "string \<Rightarrow> string" where
  "lower s = map lower_char s"

definition upper :: "string \<Rightarrow> string" where
  "upper s = map upper_char s"

definition is_digit :: "char \<Rightarrow> bool" where
  "is_digit c = (c \<in> set digits)"

text \<open>\<open>\w\<close>: letters, digits and the underscore.\<close>

definition is_word :: "char \<Rightarrow> bool" where
  "is_word c = (c \<in> set (lower_letters @ upper_letters @ digits @ ''_''))"

text \<open>
  \<open>\s\<close> on a \<open>str\<close> pattern: the characters for which \<open>str.isspace\<close> holds, in the
  ASCII range tab, line feed, vertical tab, form feed, carriage return, the four
  separators 0x1C to 0x1F, and the space.
\<close>

definition is_space :: "char \<Rightarrow> bool" where
  "is_space c = (c \<in> set [CHR 0x09, CHR 0x0A, CHR 0x0B, CHR 0x0C, CHR 0x0D,
                             CHR 0x1C, CHR 0x1D, CHR 0x1E, CHR 0x1F, CHR '' ''])"

text \<open>\<open>s.endswith((".htm", ".html"))\<close>\<close>

definition ends_html :: "string \<Rightarrow> bool" where
  "ends_html s = (suffix ''.htm'' s \<or> suffix ''.html'' s)"

text \<open>\<open>any(k in p for k in ("10-k","10k","20-f","20f"))\<close>\<close>

definition has_token :: "string \<Rightarrow> bool" where
  "has_token p = list_ex (\<lambda>k. sublist k p) [''10-k'', ''10k'', ''20-f'', ''20f'']"

section \<open>Directory-listing score\<close>

text \<open>
  \<open>re.search(r"\bex[-_ ]?\d", n)\<close>. \<open>ex_here\<close> matches \<open>ex[-_ ]?\d\<close> at the head of
  the text; \<open>search_ex\<close> tries every position from the left, its first argument telling
  whether the character before the position is a word character (\<open>\b\<close> before the
  word character \<open>e\<close> holds at the start of the text and after a non-word character).
\<close>

fun ex_here :: "string \<Rightarrow> bool" where
  "ex_here (e # x # c # rest) =
     (e = CHR ''e'' \<and> x = CHR ''x'' \<and>
      (is_digit c \<or> (c \<in> set ''-_ '' \<and> (case rest of [] \<Rightarrow> False | d # _ \<Rightarrow> is_digit d))))"
| "ex_here _ = False"

fun search_ex :: "bool \<Rightarrow> string \<Rightarrow> bool" where
  "search_ex prev_word [] = False"
| "search_ex prev_word (c # cs) =
     (if \<not> prev_word \<and> ex_here (c # cs) then True else search_ex (is_word c) cs)"

text \<open>The nested function \<open>score\<close> of \<open>pick_html_from_index_json\<close>, statement by statement.\<close>

definition score :: "string \<Rightarrow> int" where
  "score name =
     (let n = lower name;
          s = 0;
          s = (if sublist ''10-k'' n \<or> sublist ''10k'' n then s + 10 else s);
          s = (if sublist ''20-f'' n \<or> sublist ''20f'' n then s + 9 else s);
          s = (if sublist ''form'' n then s + 2 else s);
          s = (if n = ''index.html'' then s - 10 else s);
          s = (if search_ex False n \<or> sublist ''exhibit'' n then s - 5 else s);
          s = s + min (int (length n) div 10) 3
      in s)"

text \<open>
  The reference components of the specification, summed. The exhibit-numbering pattern
  is in the specification's words: \<open>ex\<close>, an optional separator, a digit, anywhere in
  the name.
\<close>

definition starts_with_digit :: "string \<Rightarrow> bool" where
  "starts_with_digit t = (case t of [] \<Rightarrow> False | d # _ \<Rightarrow> is_digit d)"

definition ex_numbered_here :: "string \<Rightarrow> bool" where
  "ex_numbered_here s =
     (prefix ''ex'' s \<and>
      (starts_with_digit (drop 2 s) \<or>
       (\<exists>sep \<in> set ''-_ ''. prefix [sep] (drop 2 s) \<and> starts_with_digit (drop 3 s))))"

definition exhibit_numbered_spec :: "string \<Rightarrow> bool" where
  "exhibit_numbered_spec n = list_ex (\<lambda>i. ex_numbered_here (drop i n)) [0..<length n]"

definition score_spec :: "string \<Rightarrow> int" where
  "score_spec filename =
     (let n = lower filename in
        (if sublist ''10-k'' n \<or> sublist ''10k'' n then 10 else 0)
      + (if sublist ''20-f'' n \<or> sublist ''20f'' n then 9 else 0)
      + (if sublist ''form'' n then 2 else 0)
      + (if n = ''index.html'' then - 10 else 0)
      + (if exhibit_numbered_spec n \<or> sublist ''exhibit'' n then - 5 else 0)
      + min (int (length filename) div 10) 3)"

text \<open>
  The same sum with the pattern required to start at a word boundary: at the start of
  the name, or behind a character that is no letter, digit or underscore.
\<close>

definition exhibit_numbered_at_boundary :: "string \<Rightarrow> bool" where
  "exhibit_numbered_at_boundary n =
     list_ex (\<lambda>i. (i = 0 \<or> \<not> is_word (n ! (i - 1))) \<and> ex_numbered_here (drop i n)) [0..<length n]"

definition score_components :: "string \<Rightarrow> int" where
  "score_components filename =
     (let n = lower filename in
        (if sublist ''10-k'' n \<or> sublist ''10k'' n then 10 else 0)
      + (if sublist ''20-f'' n \<or> sublist ''20f'' n then 9 else 0)
      + (if sublist ''form'' n then 2 else 0)
      + (if n = ''index.html'' then - 10 else 0)
      + (if exhibit_numbered_at_boundary n \<or> sublist ''exhibit'' n then - 5 else 0)
      + min (int (length filename) div 10) 3)"

section \<open>The remote service and the local effects\<close>

text \<open>
  The JSON documents of the three endpoints, at the shape the code reads. A key the
  code reads with \<open>.get(key, default)\<close> and that is absent is the default (an empty
  list); a key read with \<open>[key]\<close> may be absent (\<open>None\<close>), which raises \<open>KeyError\<close>.
  An entry of a directory listing is a dictionary of strings, as an association list.
  Values of another JSON type than these are outside the model.
\<close>

datatype company = Company (c_ticker: "string option") (c_cik_str: "int option") (c_title: "string option")

datatype recent = Recent (r_form: "string list") (r_accessionNumber: "string list")
  (r_filingDate: "string list") (r_primaryDocument: "string option list")

type_synonym item = "(string \<times> string) list"

datatype json_doc = TickerTable "company list" | FilingHistory recent | DirListing "item list"

text \<open>
  A response of \<open>requests.get\<close>: a network-level failure (a \<open>RequestException\<close>:
  connection error, timeout), or a status code with the body as text and, when the body
  is a JSON document, its decoded form. \<open>r.json()\<close> on a body that is not JSON raises
  \<open>requests.exceptions.JSONDecodeError\<close>, a \<open>RequestException\<close>.
\<close>

datatype response = ConnError | Http nat string "json_doc option"

text \<open>
  What a run does to the outside: the requests it sends and the pauses it makes, in
  order, and the files it writes. The world also holds the directories that exist and
  the paths at which writing a file or making a directory raises \<open>OSError\<close>.
  Durations are in milliseconds. Console output is left out. The server answers a request from the history so far and the URL, so that it may
  answer the same URL differently at a later attempt.
\<close>

datatype event = Request string | Sleep nat

datatype content =
    Downloaded string
  | MasterTxt string
  | HtmlText string
  | IndexPage string string "(string \<times> string \<times> bool) list"

record world =
  evs :: "event list"
  files :: "string \<rightharpoonup> content"
  dirs :: "string \<Rightarrow> bool"
  write_fails :: "string \<Rightarrow> bool"
  mkdir_fails :: "string \<Rightarrow> bool"

type_synonym server = "event list \<Rightarrow> string \<Rightarrow> response"

definition request :: "server \<Rightarrow> string \<Rightarrow> world \<Rightarrow> response \<times> world" where
  "request srv url w = (srv (evs w) url, w\<lparr>evs := evs w @ [Request url]\<rparr>)"

definition sleep :: "nat \<Rightarrow> world \<Rightarrow> world" where
  "sleep ms w = w\<lparr>evs := evs w @ [Sleep ms]\<rparr>"

definition SLEEP_BETWEEN_CALLS :: nat where
  "SLEEP_BETWEEN_CALLS = 300"

text \<open>
  \<open>get_json\<close>: the loop \<open>for attempt in range(1, max_retries + 1)\<close> runs over the list
  of attempt numbers. Status 429 and 5xx sleep and continue; any other 4xx makes
  \<open>raise_for_status\<close> raise, which like a network failure and an undecodable body goes
  to the \<open>except\<close> branch.
\<close>

fun get_json_loop :: "server \<Rightarrow> string \<Rightarrow> nat \<Rightarrow> nat \<Rightarrow> nat list \<Rightarrow> world \<Rightarrow> json_doc option \<times> world" where
  "get_json_loop srv url max_retries backoff [] w = (None, w)"
| "get_json_loop srv url max_retries backoff (attempt # rest) w =
     (case request srv url w of
        (Http st txt js, w1) \<Rightarrow>
          if st = 429 \<or> (500 \<le> st \<and> st < 600) then
            get_json_loop srv url max_retries backoff rest (sleep (backoff * attempt) w1)
          else if 400 \<le> st \<and> st < 600 \<or> js = None then
            (if attempt = max_retries then (None, w1)
             else get_json_loop srv url max_retries backoff rest (sleep (backoff * attempt) w1))
          else (js, w1)
      | (ConnError, w1) \<Rightarrow>
          if attempt = max_retries then (None, w1)
          else get_json_loop srv url max_retries backoff rest (sleep (backoff * attempt) w1))"

definition get_json_with :: "server \<Rightarrow> string \<Rightarrow> nat \<Rightarrow> nat \<Rightarrow> world \<Rightarrow> json_doc option \<times> world" where
  "get_json_with srv url max_retries backoff w =
     get_json_loop srv url max_retries backoff [1 ..< max_retries + 1] w"

text \<open>The call with the default arguments \<open>max_retries = 3\<close>, \<open>backoff = 1.0\<close>.\<close>

definition get_json :: "server \<Rightarrow> string \<Rightarrow> world \<Rightarrow> json_doc option \<times> world" where
  "get_json srv url w = get_json_with srv url 3 1000 w"

definition get_text :: "server \<Rightarrow> string \<Rightarrow> world \<Rightarrow> string option \<times> world" where
  "get_text srv url w =
     (case request srv url w of
        (Http st txt js, w1) \<Rightarrow>
          if st = 404 then (None, w1)
          else if 400 \<le> st \<and> st < 600 then (None, w1)
          else (Some txt, w1)
      | (ConnError, w1) \<Rightarrow> (None, w1))"

section \<open>Filing selection helpers\<close>

definition folder_url :: "string \<Rightarrow> string \<Rightarrow> string" where
  "folder_url cik_no_zeros accession_nodashes =
     ''https://www.sec.gov/Archives/edgar/data/'' @ cik_no_zeros @ ''/'' @ accession_nodashes @ ''/''"

text \<open>\<open>_index_json_items\<close>\<close>

definition index_json_items :: "server \<Rightarrow> string \<Rightarrow> string \<Rightarrow> world \<Rightarrow> item list \<times> world" where
  "index_json_items srv cik_no_zeros accession_nodashes w =
     (case get_json srv (folder_url cik_no_zeros accession_nodashes @ ''index.json'') w of
        (Some (DirListing items), w1) \<Rightarrow> (items, w1)
      | (_, w1) \<Rightarrow> ([], w1))"

text \<open>\<open>it.get("name", "")\<close>\<close>

definition item_name :: "item \<Rightarrow> string" where
  "item_name it = (case map_of it ''name'' of Some v \<Rightarrow> v | None \<Rightarrow> [])"

text \<open>\<open>max(b # xs, key=f)\<close>: the first element with the greatest key.\<close>

fun max_by :: "('a \<Rightarrow> int) \<Rightarrow> 'a \<Rightarrow> 'a list \<Rightarrow> 'a" where
  "max_by f b [] = b"
| "max_by f b (x # xs) = max_by f (if f b < f x then x else b) xs"

definition html_names :: "item list \<Rightarrow> string list" where
  "html_names items = map item_name (filter (\<lambda>it. ends_html (lower (item_name it))) items)"

definition pick_html_from_index_json :: "server \<Rightarrow> string \<Rightarrow> string \<Rightarrow> world \<Rightarrow> string option \<times> world" where
  "pick_html_from_index_json srv cik_no_zeros accession_nodashes w =
     (case index_json_items srv cik_no_zeros accession_nodashes w of
        (items, w1) \<Rightarrow>
          (case html_names items of
             [] \<Rightarrow> (None, w1)
           | h # hs \<Rightarrow> (Some (folder_url cik_no_zeros accession_nodashes @ max_by score h hs), w1)))"

subsection \<open>The legacy bundle\<close>

text \<open>A literal matched under \<open>re.IGNORECASE\<close> at the head of the text.\<close>

fun prefix_ci :: "string \<Rightarrow> string \<Rightarrow> bool" where
  "prefix_ci [] s = True"
| "prefix_ci (a # lit) [] = False"
| "prefix_ci (a # lit) (c # cs) = (lower_char a = lower_char c \<and> prefix_ci lit cs)"

text \<open>
  \<open>re.findall(r"<DOCUMENT>(.*?)</DOCUMENT>", txt, flags=re.DOTALL | re.IGNORECASE)\<close>:
  at an opening tag the lazy group runs to the first closing tag, and the scan goes on
  behind it; where no closing tag follows, the scan moves one character on.
\<close>

fun split_at_close :: "string \<Rightarrow> (string \<times> string) option" where
  "split_at_close [] = None"
| "split_at_close (c # cs) =
     (if prefix_ci ''</DOCUMENT>'' (c # cs) then Some ([], drop 11 (c # cs))
      else (case split_at_close cs of None \<Rightarrow> None | Some (g, r) \<Rightarrow> Some (c # g, r)))"

function doc_blocks :: "string \<Rightarrow> string list" where
  "doc_blocks [] = []"
| "doc_blocks (c # cs) =
     (if prefix_ci ''<DOCUMENT>'' (c # cs) then
        (case split_at_close (drop 10 (c # cs)) of
           None \<Rightarrow> doc_blocks cs
         | Some (g, rest) \<Rightarrow> g # doc_blocks rest)
      else doc_blocks cs)"
  by pat_completeness auto
termination
proof (relation "measure length")
  fix c cs x2 g rest
  assume a: "split_at_close (drop 10 (c # cs)) = Some x2" "(g, rest) = x2"
  have shorter: "split_at_close s = Some (g', r) \<Longrightarrow> length r < length s" for s g' r
    by (induction s arbitrary: g' r) (auto split: if_splits option.splits)
  from a have "length rest < length (drop 10 (c # cs))"
    using shorter by metis
  then show "(rest, c # cs) \<in> measure length" by simp
qed auto

text \<open>
  \<open>re.search(tag + r"\s*([^\s<]+)", block, flags=re.IGNORECASE)\<close>: group 1 at the
  leftmost place where the tag is followed, after any white space, by at least one
  character that is neither white space nor \<open><\<close>.
\<close>

definition tag_value :: "string \<Rightarrow> string option" where
  "tag_value s =
     (let v = takeWhile (\<lambda>c. \<not> is_space c \<and> c \<noteq> CHR ''<'') (dropWhile is_space s)
      in if v = [] then None else Some v)"

fun search_tag :: "string \<Rightarrow> string \<Rightarrow> string option" where
  "search_tag tag [] = None"
| "search_tag tag (c # cs) =
     (if prefix_ci tag (c # cs) then
        (case tag_value (drop (length tag) (c # cs)) of
           Some v \<Rightarrow> Some v
         | None \<Rightarrow> search_tag tag cs)
      else search_tag tag cs)"

definition annual_types :: "string list" where
  "annual_types = [''10-K'', ''10-K/A'', ''20-F'', ''20-F/A'']"

text \<open>The loop \<open>for block in doc_blocks\<close> of \<open>parse_submission_txt_for_annual_html\<close>.\<close>

fun parse_blocks :: "string \<Rightarrow> string \<Rightarrow> string list \<Rightarrow> string option" where
  "parse_blocks cik_no_zeros accession_nodashes [] = None"
| "parse_blocks cik_no_zeros accession_nodashes (block # rest) =
     (case search_tag ''<TYPE>'' block of
        None \<Rightarrow> parse_blocks cik_no_zeros accession_nodashes rest
      | Some mtype \<Rightarrow>
          (case search_tag ''<FILENAME>'' block of
             None \<Rightarrow> parse_blocks cik_no_zeros accession_nodashes rest
           | Some fname \<Rightarrow>
               if upper mtype \<in> set annual_types \<and> ends_html (lower fname)
               then Some (folder_url cik_no_zeros accession_nodashes @ fname)
               else parse_blocks cik_no_zeros accession_nodashes rest))"

definition parse_submission_txt_for_annual_html ::
  "server \<Rightarrow> string \<Rightarrow> string \<Rightarrow> world \<Rightarrow> string option \<times> world" where
  "parse_submission_txt_for_annual_html srv cik_no_zeros accession_nodashes w =
     (case get_text srv (folder_url cik_no_zeros accession_nodashes @ accession_nodashes @ ''.txt'') w of
        (None, w1) \<Rightarrow> (None, w1)
      | (Some txt, w1) \<Rightarrow>
          if txt = [] then (None, w1)
          else (parse_blocks cik_no_zeros accession_nodashes (doc_blocks txt), w1))"

text \<open>The loop of \<open>_extract_annual_html_from_sgml\<close>.\<close>

fun extract_blocks :: "string list \<Rightarrow> string option" where
  "extract_blocks [] = None"
| "extract_blocks (block # rest) =
     (case search_tag ''<TYPE>'' block of
        None \<Rightarrow> extract_blocks rest
      | Some mtype \<Rightarrow>
          (case search_tag ''<FILENAME>'' block of
             None \<Rightarrow> extract_blocks rest
           | Some fname \<Rightarrow>
               if upper mtype \<in> set annual_types \<and> ends_html (lower fname)
               then Some fname
               else extract_blocks rest))"

text \<open>\<open>_extract_annual_html_from_sgml\<close>\<close>

definition extract_annual_html_from_sgml :: "string \<Rightarrow> string option" where
  "extract_annual_html_from_sgml sgml_text = extract_blocks (doc_blocks sgml_text)"

subsection \<open>The three tiers\<close>

text \<open>The test of the declared name: \<open>primary_doc\<close> is neither \<open>None\<close> nor empty, and
  its lower-case form ends in an HTML extension and contains a filing-type token.\<close>

definition looks_annual :: "string option \<Rightarrow> bool" where
  "looks_annual primary_doc =
     (case primary_doc of
        None \<Rightarrow> False
      | Some d \<Rightarrow> d \<noteq> [] \<and> (let p = lower d in ends_html p \<and> has_token p))"

definition pick_best_annual_html ::
  "server \<Rightarrow> string \<Rightarrow> string \<Rightarrow> string option \<Rightarrow> world \<Rightarrow> string option \<times> world" where
  "pick_best_annual_html srv cik_no_zeros accession_nodashes primary_doc w =
     (if looks_annual primary_doc then
        (Some (folder_url cik_no_zeros accession_nodashes @ the primary_doc), w)
      else
        (case pick_html_from_index_json srv cik_no_zeros accession_nodashes w of
           (Some url, w1) \<Rightarrow>
             if url \<noteq> [] \<and> \<not> suffix ''/index.html'' url then (Some url, w1)
             else parse_submission_txt_for_annual_html srv cik_no_zeros accession_nodashes w1
         | (None, w1) \<Rightarrow>
             parse_submission_txt_for_annual_html srv cik_no_zeros accession_nodashes w1))"

section \<open>Ticker to identifier\<close>

text \<open>\<open>str(n)\<close> for an integer, and \<open>s.zfill(width)\<close>, which keeps a leading sign in front.\<close>

function str_digits :: "int \<Rightarrow> string" where
  "str_digits n =
     (if n < 10 then [digits ! nat n] else str_digits (n div 10) @ [digits ! nat (n mod 10)])"
  by pat_completeness auto
termination
  by (relation "measure nat") auto

definition str_int :: "int \<Rightarrow> string" where
  "str_int i = (if i < 0 then CHR ''-'' # str_digits (- i) else str_digits i)"

definition zfill :: "nat \<Rightarrow> string \<Rightarrow> string" where
  "zfill width s =
     (if width \<le> length s then s
      else (case s of
              c # cs \<Rightarrow>
                if c = CHR ''+'' \<or> c = CHR ''-'' then c # replicate (width - length s) CHR ''0'' @ cs
                else replicate (width - length s) CHR ''0'' @ s
            | [] \<Rightarrow> replicate width CHR ''0''))"

text \<open>\<open>s.upper().replace('.', '')\<close>\<close>

definition norm_ticker :: "string \<Rightarrow> string" where
  "norm_ticker s = filter (\<lambda>c. c \<noteq> CHR ''.'') (upper s)"

text \<open>
  The loop \<open>for company in data.values()\<close> of \<open>get_cik_from_ticker\<close>. A missing key
  raises, and the \<open>except Exception\<close> of the function turns that into \<open>(None, None)\<close>.
\<close>

fun find_company :: "string \<Rightarrow> company list \<Rightarrow> (string \<times> string) option" where
  "find_company ticker_upper [] = None"
| "find_company ticker_upper (company # rest) =
     (case c_ticker company of
        None \<Rightarrow> None
      | Some t \<Rightarrow>
          if norm_ticker t = ticker_upper then
            (case c_cik_str company of
               None \<Rightarrow> None
             | Some n \<Rightarrow>
                 (case c_title company of
                    None \<Rightarrow> None
                  | Some company_name \<Rightarrow> Some (zfill 10 (str_int n), company_name)))
          else find_company ticker_upper rest)"

text \<open>The result \<open>(None, None)\<close> is \<open>None\<close>, the result \<open>(cik, company_name)\<close> is \<open>Some\<close>.\<close>

definition get_cik_from_ticker :: "server \<Rightarrow> string \<Rightarrow> world \<Rightarrow> (string \<times> string) option \<times> world" where
  "get_cik_from_ticker srv ticker w =
     (case get_json srv ''https://www.sec.gov/files/company_tickers.json'' w of
        (Some (TickerTable data), w1) \<Rightarrow>
          if data = [] then (None, w1) else (find_company (norm_ticker ticker) data, w1)
      | (_, w1) \<Rightarrow> (None, w1))"

section \<open>Submissions API: annual filings\<close>

datatype candidate = Candidate (cand_form: string) (cand_accession: string)
  (cand_filing_date: string) (cand_primary_doc: "string option")

datatype filing = Filing (f_date: string) (f_url: string) (f_accession: string)
  (f_form: string) (f_is_amend: bool)

definition wanted_forms :: "bool \<Rightarrow> bool \<Rightarrow> string list" where
  "wanted_forms include_amends include_20f =
     [''10-K''] @ (if include_amends then [''10-K/A''] else [])
                @ (if include_20f then [''20-F'', ''20-F/A''] else [])"

text \<open>
  The loop \<open>for i, form in enumerate(forms)\<close>. Reading one of the other arrays behind
  its end raises \<open>IndexError\<close>, here \<open>None\<close>.
\<close>

fun collect_candidates :: "string list \<Rightarrow> recent \<Rightarrow> nat \<Rightarrow> string list \<Rightarrow> candidate list option" where
  "collect_candidates wanted rc i [] = Some []"
| "collect_candidates wanted rc i (form # forms) =
     (if form \<in> set wanted then
        (if i < length (r_accessionNumber rc) \<and> i < length (r_filingDate rc)
            \<and> i < length (r_primaryDocument rc)
         then (case collect_candidates wanted rc (Suc i) forms of
                 None \<Rightarrow> None
               | Some cs \<Rightarrow>
                   Some (Candidate form (r_accessionNumber rc ! i) (r_filingDate rc ! i)
                           (r_primaryDocument rc ! i) # cs))
         else None)
      else collect_candidates wanted rc (Suc i) forms)"

text \<open>
  \<open>xs.sort(key=f, reverse=True)\<close>: CPython reverses the list, sorts it stably in
  ascending order of the key, and reverses it again. \<open>xs[:count]\<close> for an integer
  \<open>count\<close>, which counts from the end when negative.
\<close>

definition sort_reverse :: "('a \<Rightarrow> 'k::linorder) \<Rightarrow> 'a list \<Rightarrow> 'a list" where
  "sort_reverse f xs = rev (sort_key f (rev xs))"

definition slice_to :: "int \<Rightarrow> 'a list \<Rightarrow> 'a list" where
  "slice_to count xs =
     (if 0 \<le> count then take (nat count) xs else take (length xs - nat (- count)) xs)"

text \<open>
  Lines 232 to 258 of \<open>get_annual_filings_html\<close>: the candidates handed to document
  resolution. The early \<open>return []\<close> on no candidate is the empty list here.
\<close>

definition select_candidates :: "recent \<Rightarrow> int \<Rightarrow> bool \<Rightarrow> bool \<Rightarrow> candidate list option" where
  "select_candidates rc count include_amends include_20f =
     (case collect_candidates (wanted_forms include_amends include_20f) rc 0 (r_form rc) of
        None \<Rightarrow> None
      | Some candidates \<Rightarrow> Some (slice_to count (sort_reverse cand_filing_date candidates)))"

text \<open>
  \<open>int(cik)\<close> on a string: white space around (tab, line feed, vertical tab, form
  feed, carriage return and space), an optional sign, then decimal digits with single
  underscores allowed between them; anything else raises \<open>ValueError\<close>. The
  interpreter's limit on the number of digits is not modelled.
\<close>

definition is_blank :: "char \<Rightarrow> bool" where
  "is_blank c = (c \<in> set [CHR 0x09, CHR 0x0A, CHR 0x0B, CHR 0x0C, CHR 0x0D, CHR '' ''])"

fun digits_value :: "int \<Rightarrow> bool \<Rightarrow> string \<Rightarrow> int option" where
  "digits_value acc after_digit [] = (if after_digit then Some acc else None)"
| "digits_value acc after_digit (c # cs) =
     (if is_digit c then digits_value (10 * acc + (of_char c - 48)) True cs
      else if c = CHR ''_'' \<and> after_digit then digits_value acc False cs
      else None)"

definition strip :: "string \<Rightarrow> string" where
  "strip s = rev (dropWhile is_blank (rev (dropWhile is_blank s)))"

definition py_int :: "string \<Rightarrow> int option" where
  "py_int s =
     (case strip s of
        [] \<Rightarrow> None
      | c # cs \<Rightarrow>
          if c = CHR ''-'' then map_option uminus (digits_value 0 False cs)
          else if c = CHR ''+'' then digits_value 0 False cs
          else digits_value 0 False (c # cs))"

text \<open>The loop \<open>for c in candidates\<close>.\<close>

fun resolve_candidates :: "server \<Rightarrow> string \<Rightarrow> candidate list \<Rightarrow> world \<Rightarrow> filing list \<times> world" where
  "resolve_candidates srv cik_no_zeros [] w = ([], w)"
| "resolve_candidates srv cik_no_zeros (c # cs) w =
     (let accession_nodashes = filter (\<lambda>x. x \<noteq> CHR ''-'') (cand_accession c) in
      case pick_best_annual_html srv cik_no_zeros accession_nodashes (cand_primary_doc c) w of
        (Some use_url, w1) \<Rightarrow>
          if use_url \<noteq> [] then
            (case resolve_candidates srv cik_no_zeros cs w1 of
               (out, w2) \<Rightarrow>
                 (Filing (cand_filing_date c) use_url (cand_accession c) (cand_form c)
                    (suffix ''/A'' (cand_form c)) # out, w2))
          else resolve_candidates srv cik_no_zeros cs w1
      | (None, w1) \<Rightarrow> resolve_candidates srv cik_no_zeros cs w1)"

definition get_annual_filings_html ::
  "server \<Rightarrow> string \<Rightarrow> int \<Rightarrow> bool \<Rightarrow> bool \<Rightarrow> world \<Rightarrow> filing list \<times> world" where
  "get_annual_filings_html srv cik count include_amends include_20f w =
     (case get_json srv (''https://data.sec.gov/submissions/CIK'' @ cik @ ''.json'') w of
        (Some (FilingHistory rc), w1) \<Rightarrow>
          (case select_candidates rc count include_amends include_20f of
             None \<Rightarrow> ([], w1)
           | Some candidates \<Rightarrow>
               if candidates = [] then ([], w1)
               else (case py_int cik of
                       None \<Rightarrow> ([], w1)
                     | Some n \<Rightarrow> resolve_candidates srv (str_int n) candidates w1))
      | (_, w1) \<Rightarrow> ([], w1))"

section \<open>Exhibits and the local index\<close>

text \<open>
  A local folder is the function from a name to the path \<open>dest_dir / name\<close>, which
  at the empty name is the folder itself. A path exists when the world has a file or a
  directory there. Writing a file and making a directory raise \<open>OSError\<close> at the
  paths the world tells; a failed write leaves the files as they were.
\<close>

type_synonym dir = "string \<Rightarrow> string"

datatype error = OSError

definition EXHIBIT_EXTS :: "string list" where
  "EXHIBIT_EXTS = [''.htm'', ''.html'', ''.txt'', ''.pdf'']"


definition path_exists :: "world \<Rightarrow> string \<Rightarrow> bool" where
  "path_exists w path = (files w path \<noteq> None \<or> dirs w path)"

definition write_file :: "string \<Rightarrow> content \<Rightarrow> world \<Rightarrow> error + world" where
  "write_file path c w =
     (if write_fails w path then Inl OSError else Inr (w\<lparr>files := (files w)(path \<mapsto> c)\<rparr>))"

text \<open>\<open>path.mkdir(parents=True, exist_ok=True)\<close>\<close>

definition mkdir :: "string \<Rightarrow> world \<Rightarrow> error + world" where
  "mkdir path w =
     (if mkdir_fails w path then Inl OSError else Inr (w\<lparr>dirs := (dirs w)(path := True)\<rparr>))"

text \<open>
  \<open>_write_clickable_index_from_items\<close>: the page is kept as the data it renders, the
  identifier, the accession and one row \<open>(name, href, local_exists)\<close> for each item.
  The body stands in \<open>try\<close> with \<open>except Exception: pass\<close>: when making the folder or
  writing the page raises, the function returns with what it has done so far.
\<close>

definition write_clickable_index_from_items ::
  "string \<Rightarrow> string \<Rightarrow> item list \<Rightarrow> dir \<Rightarrow> string \<Rightarrow> world \<Rightarrow> world" where
  "write_clickable_index_from_items cik_no_zeros accession_nodashes items dest_dir filename w =
     (let rows = map (\<lambda>it. (item_name it,
                             folder_url cik_no_zeros accession_nodashes @ item_name it,
                             path_exists w (dest_dir (item_name it)))) items
      in case mkdir (dest_dir []) w of
           Inl e \<Rightarrow> w
         | Inr w1 \<Rightarrow>
             (case write_file (dest_dir filename)
                     (IndexPage cik_no_zeros accession_nodashes rows) w1 of
                Inl e \<Rightarrow> w1
              | Inr w2 \<Rightarrow> w2))"


text \<open>
  \<open>_download_binary\<close>: only \<open>requests.RequestException\<close> is caught, so an
  \<open>OSError\<close> of \<open>dest_path.write_bytes\<close> leaves the function as an exception.
\<close>

definition download_binary :: "server \<Rightarrow> string \<Rightarrow> string \<Rightarrow> world \<Rightarrow> (error + bool) \<times> world" where
  "download_binary srv url dest_path w =
     (case request srv url w of
        (Http st txt js, w1) \<Rightarrow>
          if st = 404 then (Inr False, w1)
          else if 400 \<le> st \<and> st < 600 then (Inr False, w1)
          else (case write_file dest_path (Downloaded txt) w1 of
                  Inl e \<Rightarrow> (Inl e, w1)
                | Inr w2 \<Rightarrow> (Inr True, w2))
      | (ConnError, w1) \<Rightarrow> (Inr False, w1))"

text \<open>The loop \<open>for it in items\<close> of \<open>_download_exhibits\<close>; an exception ends it.\<close>

fun download_items ::
  "server \<Rightarrow> string \<Rightarrow> string \<Rightarrow> dir \<Rightarrow> string list \<Rightarrow> item list \<Rightarrow> nat \<Rightarrow> world
     \<Rightarrow> (error + nat) \<times> world" where
  "download_items srv cik_no_zeros accession_nodashes dest_dir include_exts [] downloaded w =
     (Inr downloaded, w)"
| "download_items srv cik_no_zeros accession_nodashes dest_dir include_exts (it # rest) downloaded w =
     (let nm = item_name it in
      if nm = [] then
        download_items srv cik_no_zeros accession_nodashes dest_dir include_exts rest downloaded w
      else if \<not> list_ex (\<lambda>e. suffix e (lower nm)) include_exts then
        download_items srv cik_no_zeros accession_nodashes dest_dir include_exts rest downloaded w
      else if path_exists w (dest_dir nm) then
        download_items srv cik_no_zeros accession_nodashes dest_dir include_exts rest downloaded w
      else
        (case download_binary srv (folder_url cik_no_zeros accession_nodashes @ nm) (dest_dir nm) w of
           (Inl e, w1) \<Rightarrow> (Inl e, w1)
         | (Inr True, w1) \<Rightarrow>
             download_items srv cik_no_zeros accession_nodashes dest_dir include_exts rest
               (downloaded + 1) (sleep SLEEP_BETWEEN_CALLS w1)
         | (Inr False, w1) \<Rightarrow>
             download_items srv cik_no_zeros accession_nodashes dest_dir include_exts rest
               downloaded w1))"

text \<open>
  \<open>_download_exhibits\<close>: the index is written behind the loop, which an exception
  of the loop does not reach.
\<close>

definition download_exhibits ::
  "server \<Rightarrow> string \<Rightarrow> string \<Rightarrow> dir \<Rightarrow> string list \<Rightarrow> world \<Rightarrow> (error + nat) \<times> world" where
  "download_exhibits srv cik_no_zeros accession_nodashes dest_dir include_exts w =
     (case index_json_items srv cik_no_zeros accession_nodashes w of
        (items, w1) \<Rightarrow>
          (case download_items srv cik_no_zeros accession_nodashes dest_dir include_exts items 0 w1 of
             (Inl e, w2) \<Rightarrow> (Inl e, w2)
           | (Inr downloaded, w2) \<Rightarrow>
               (Inr downloaded,
                write_clickable_index_from_items cik_no_zeros accession_nodashes items dest_dir
                  ''filing_index.html'' w2)))"

section \<open>Downloading a document\<close>






section \<open>Notions used in the statements\<close>

text \<open>The events a run adds to the history.\<close>

definition new_events :: "world \<Rightarrow> world \<Rightarrow> event list" where
  "new_events w w' = drop (length (evs w)) (evs w')"





text \<open>The last component of a path or URL.\<close>

definition last_component :: "string \<Rightarrow> string" where
  "last_component url = rev (takeWhile (\<lambda>c. c \<noteq> CHR ''/'') (rev url))"

text \<open>A block of the bundle that tier 3 accepts, and the file name it carries.\<close>

definition block_qualifies :: "string \<Rightarrow> bool" where
  "block_qualifies block =
     (case (search_tag ''<TYPE>'' block, search_tag ''<FILENAME>'' block) of
        (Some t, Some f) \<Rightarrow> upper t \<in> set annual_types \<and> ends_html (lower f)
      | _ \<Rightarrow> False)"

definition block_filename :: "string \<Rightarrow> string" where
  "block_filename block = (case search_tag ''<FILENAME>'' block of Some f \<Rightarrow> f | None \<Rightarrow> [])"

text \<open>
  The entries of a filing-history feed whose arrays are parallel, in feed order.
\<close>

definition parallel :: "recent \<Rightarrow> bool" where
  "parallel rc =
     (length (r_accessionNumber rc) = length (r_form rc)
      \<and> length (r_filingDate rc) = length (r_form rc)
      \<and> length (r_primaryDocument rc) = length (r_form rc))"

definition feed_entries :: "recent \<Rightarrow> candidate list" where
  "feed_entries rc =
     map (\<lambda>i. Candidate (r_form rc ! i) (r_accessionNumber rc ! i) (r_filingDate rc ! i)
                (r_primaryDocument rc ! i)) [0 ..< length (r_form rc)]"

definition wanted :: "bool \<Rightarrow> bool \<Rightarrow> candidate \<Rightarrow> bool" where
  "wanted include_amends include_20f c = (cand_form c \<in> set (wanted_forms include_amends include_20f))"

text \<open>
  The entry \<open>get_annual_filings_html\<close> returns for a candidate and its URL; the
  resolution of a candidate in a world; the world in which candidate \<open>i\<close> of a list is
  resolved, which the candidates before it have left; and the entries of the candidates,
  in their order, whose resolution in that world gives a URL.
\<close>

definition filing_of :: "candidate \<Rightarrow> string \<Rightarrow> filing" where
  "filing_of c use_url =
     Filing (cand_filing_date c) use_url (cand_accession c) (cand_form c)
       (suffix ''/A'' (cand_form c))"

definition resolution_of :: "server \<Rightarrow> string \<Rightarrow> candidate \<Rightarrow> world \<Rightarrow> string option \<times> world" where
  "resolution_of srv cik_no_zeros c w =
     pick_best_annual_html srv cik_no_zeros (filter (\<lambda>x. x \<noteq> CHR ''-'') (cand_accession c))
       (cand_primary_doc c) w"

definition world_before :: "server \<Rightarrow> string \<Rightarrow> candidate list \<Rightarrow> world \<Rightarrow> nat \<Rightarrow> world" where
  "world_before srv cik_no_zeros cs w i = snd (resolve_candidates srv cik_no_zeros (take i cs) w)"

definition resolved_entries :: "server \<Rightarrow> string \<Rightarrow> candidate list \<Rightarrow> world \<Rightarrow> filing list" where
  "resolved_entries srv cik_no_zeros cs w =
     concat (map (\<lambda>i. case fst (resolution_of srv cik_no_zeros (cs ! i)
                                    (world_before srv cik_no_zeros cs w i)) of
                         Some use_url \<Rightarrow> [filing_of (cs ! i) use_url]
                       | None \<Rightarrow> [])
                 [0 ..< length cs])"

text \<open>
  Two tickers that differ only in letter case and punctuation, with the ASCII
  punctuation characters, and two that differ only in letter case and periods.
\<close>

definition punctuation :: string where
  "punctuation = ''!#$%&()*+,-./:;<=>?@[]^_{|}~'' @ [CHR 0x22, CHR 0x27, CHR 0x5C, CHR 0x60]"

definition same_but_case_and_punctuation :: "string \<Rightarrow> string \<Rightarrow> bool" where
  "same_but_case_and_punctuation s t =
     (filter (\<lambda>c. c \<notin> set punctuation) (lower s) = filter (\<lambda>c. c \<notin> set punctuation) (lower t))"

definition same_but_case_and_periods :: "string \<Rightarrow> string \<Rightarrow> bool" where
  "same_but_case_and_periods s t =
     (filter (\<lambda>c. c \<noteq> CHR ''.'') (lower s) = filter (\<lambda>c. c \<noteq> CHR ''.'') (lower t))"

text \<open>
  A URL in the archive folder of an identifier and accession whose file name ends in an
  HTML extension, in any letter case.
\<close>

definition archive_html_url :: "string \<Rightarrow> string \<Rightarrow> string \<Rightarrow> bool" where
  "archive_html_url cik_no_zeros accession_nodashes url =
     (\<exists>fname. url = folder_url cik_no_zeros accession_nodashes @ fname
        \<and> ends_html (lower fname) \<and> ends_html (lower (last_component url)))"

section \<open>Example inputs\<close>

text \<open>A world with no file and no directory, in which every write succeeds.\<close>

definition empty_world :: world where
  "empty_world =
     \<lparr>evs = [], files = Map.empty, dirs = (\<lambda>p. False),
      write_fails = (\<lambda>p. False), mkdir_fails = (\<lambda>p. False)\<rparr>"

text \<open>A server that cannot be reached.\<close>

definition offline :: server where
  "offline = (\<lambda>h u. ConnError)"

text \<open>The directory listing of the specification's example, and a server that serves it
  for every \<open>index.json\<close> and has nothing else.\<close>

definition example_listing :: "item list" where
  "example_listing =
     [[(''name'', ''index.html'')], [(''name'', ''form10-k_2023.htm'')], [(''name'', ''ex-10_1.htm'')]]"

definition listing_server :: server where
  "listing_server =
     (\<lambda>h u. if suffix ''/index.json'' u then Http 200 [] (Some (DirListing example_listing))
            else Http 404 [] None)"


text \<open>A server that serves the example listing and a body for every other URL.\<close>

definition mirror_server :: server where
  "mirror_server =
     (\<lambda>h u. if suffix ''/index.json'' u then Http 200 [] (Some (DirListing example_listing))
            else Http 200 ''body'' None)"


text \<open>
  The legacy bundle of the specification's example: an exhibit first, the annual report
  second. A server that serves it for every \<open>.txt\<close> and has nothing else.
\<close>

definition example_bundle :: string where
  "example_bundle =
     ''<SEC-DOCUMENT>0000320193-03-000106.txt'' @ [CHR 0x0A] @
     ''<DOCUMENT>'' @ [CHR 0x0A] @ ''<TYPE>EX-10.1'' @ [CHR 0x0A] @ ''<FILENAME>ex101.htm''
       @ [CHR 0x0A] @ ''<TEXT>a</TEXT>'' @ [CHR 0x0A] @ ''</DOCUMENT>'' @ [CHR 0x0A] @
     ''<DOCUMENT>'' @ [CHR 0x0A] @ ''<TYPE>10-K'' @ [CHR 0x0A] @ ''<FILENAME>annual.htm''
       @ [CHR 0x0A] @ ''<TEXT>b</TEXT>'' @ [CHR 0x0A] @ ''</DOCUMENT>'' @ [CHR 0x0A] @
     ''</SEC-DOCUMENT>''"

definition bundle_server :: server where
  "bundle_server =
     (\<lambda>h u. if suffix ''.txt'' u then Http 200 example_bundle None else Http 404 [] None)"

text \<open>
  A filing-history feed with ten entries, eight of them annual forms, two pairs of
  which share a filing date.
\<close>

definition example_feed :: recent where
  "example_feed = Recent
     [''10-K'', ''10-Q'', ''10-K/A'', ''20-F'', ''10-K'', ''8-K'', ''10-K'', ''20-F/A'', ''10-K'', ''10-K'']
     [''a-01'', ''a-02'', ''a-03'', ''a-04'', ''a-05'', ''a-06'', ''a-07'', ''a-08'', ''a-09'', ''a-10'']
     [''2021-02-01'', ''2024-05-01'', ''2023-02-01'', ''2019-02-01'', ''2023-02-01'',
      ''2024-06-01'', ''2022-02-01'', ''2020-02-01'', ''2024-02-01'', ''2020-02-01'']
     [None, None, None, None, None, None, None, None, None, None]"

text \<open>
  An identifier table, served for every request, and a folder that already holds every
  file of the example listing.
\<close>

definition example_table :: "company list" where
  "example_table =
     [Company (Some ''AAPL'') (Some 320193) (Some ''Apple Inc.''),
      Company (Some ''BRK.B'') (Some 1067983) (Some ''BERKSHIRE HATHAWAY INC''),
      Company (Some ''BF-B'') (Some 14693) (Some ''BROWN FORMAN CORP'')]"

definition ticker_server :: server where
  "ticker_server = (\<lambda>h u. Http 200 [] (Some (TickerTable example_table)))"

definition out_dir :: dir where
  "out_dir = (\<lambda>n. ''out/'' @ n)"



text \<open>
  A server that serves a filing-history feed for every submissions URL, an empty
  directory listing for every \<open>index.json\<close>, and has nothing else; and the example
  feed with a declared primary document for every entry.
\<close>

definition feed_server :: "recent \<Rightarrow> server" where
  "feed_server rc =
     (\<lambda>h u. if prefix ''https://data.sec.gov/submissions/'' u
            then Http 200 [] (Some (FilingHistory rc))
            else if suffix ''/index.json'' u then Http 200 [] (Some (DirListing []))
            else Http 404 [] None)"

definition named_feed :: recent where
  "named_feed = Recent (r_form example_feed) (r_accessionNumber example_feed)
     (r_filingDate example_feed)
     (map (\<lambda>a. Some (a @ ''_10k.htm'')) (r_accessionNumber example_feed))"

section \<open>Properties of the score\<close>

lemma length_lower: "length (lower s) = length s"
  by (simp add: lower_def)

lemma ex_here_iff: "ex_here s = ex_numbered_here s"
proof (cases s rule: ex_here.cases)
  case (1 e x c rest)
  then show ?thesis
    by (cases rest) (auto simp: ex_numbered_here_def starts_with_digit_def)
qed (auto simp: ex_numbered_here_def starts_with_digit_def)

lemma search_ex_iff:
  "search_ex pw s \<longleftrightarrow>
     (\<exists>i<length s. (if i = 0 then \<not> pw else \<not> is_word (s ! (i - 1))) \<and> ex_here (drop i s))"
proof (induction s arbitrary: pw)
  case Nil
  show ?case by simp
next
  case (Cons c cs)
  have "(\<exists>i<length (c # cs). (if i = 0 then \<not> pw else \<not> is_word ((c # cs) ! (i - 1))) \<and> ex_here (drop i (c # cs)))
     \<longleftrightarrow> (\<not> pw \<and> ex_here (c # cs)) \<or>
         (\<exists>j<length cs. (if j = 0 then \<not> is_word c else \<not> is_word (cs ! (j - 1))) \<and> ex_here (drop j cs))"
    (is "?L \<longleftrightarrow> ?A \<or> ?B")
  proof
    assume ?L
    then obtain i where i: "i < length (c # cs)"
      "if i = 0 then \<not> pw else \<not> is_word ((c # cs) ! (i - 1))" "ex_here (drop i (c # cs))" by blast
    show "?A \<or> ?B"
    proof (cases i)
      case 0
      with i show ?thesis by simp
    next
      case (Suc j)
      with i have "j < length cs" "ex_here (drop j cs)"
        "if j = 0 then \<not> is_word c else \<not> is_word (cs ! (j - 1))"
        by (auto simp: nth_Cons split: nat.splits if_splits)
      then show ?thesis by blast
    qed
  next
    assume "?A \<or> ?B"
    then show ?L
    proof
      assume ?A
      then show ?L by (intro exI[of _ 0]) simp
    next
      assume ?B
      then obtain j where j: "j < length cs"
        "if j = 0 then \<not> is_word c else \<not> is_word (cs ! (j - 1))" "ex_here (drop j cs)" by blast
      then show ?L
        by (intro exI[of _ "Suc j"]) (auto simp: nth_Cons split: nat.splits if_splits)
    qed
  qed
  with Cons.IH[of "is_word c"] show ?case by auto
qed

lemma search_ex_boundary: "search_ex False n = exhibit_numbered_at_boundary n"
proof -
  have "(if i = 0 then \<not> False else Q) \<longleftrightarrow> (i = 0 \<or> Q)" for i :: nat and Q by simp
  then show ?thesis
    by (simp add: search_ex_iff list_ex_iff ex_here_iff exhibit_numbered_at_boundary_def Bex_def conj_ac)
qed

lemma score_steps:
  "(let s = 0; s = (if a then s + 10 else s); s = (if b then s + 9 else s);
        s = (if c then s + 2 else s); s = (if d then s - 10 else s);
        s = (if e then s - 5 else s); s = s + k in s)
   = (if a then 10 else 0) + (if b then 9 else 0) + (if c then 2 else 0)
     + (if d then - 10 else 0) + (if e then - 5 else 0) + (k::int)"
  by (simp add: Let_def)

text \<open>
  C3, as amended. The score of a name is the sum of the components: 10 for
  \<open>10-k\<close> or \<open>10k\<close>, 9 for \<open>20-f\<close> or \<open>20f\<close>, 2 for \<open>form\<close>, minus 10 for the
  lower-case name \<open>index.html\<close>, minus 5 for \<open>exhibit\<close> or for \<open>ex\<close>, an optional
  separator and a digit starting at a word boundary, plus the length divided by 10 and
  capped at 3; all on the lower-case name.
\<close>

theorem score_is_sum_of_components: "score name = score_components name"
  unfolding score_def score_components_def Let_def search_ex_boundary length_lower
  by (rule score_steps[unfolded Let_def])

theorem score_is_sum_of_components_witness:
  "score_components ''ex-10_1.htm'' = - 4 \<and> score_components ''d838435dex991.htm'' = 1"
proof -
  have "score ''ex-10_1.htm'' = - 4" "score ''d838435dex991.htm'' = 1" by code_simp+
  then show ?thesis
    using score_is_sum_of_components[of "''ex-10_1.htm''"]
      score_is_sum_of_components[of "''d838435dex991.htm''"] by simp
qed

text \<open>
  C3, as stated, fails: in \<open>d838435dex991.htm\<close> the letters \<open>ex\<close> are followed by a
  digit, but stand behind a letter, and the code takes nothing off.
\<close>

theorem score_spec_counterexample:
  "score ''d838435dex991.htm'' \<noteq> score_spec ''d838435dex991.htm''"
  by code_simp

lemma not_token_index: "\<not> has_token ''index.html''"
  by code_simp

lemma score_index: "lower g = ''index.html'' \<Longrightarrow> score g = - 9"
proof -
  assume g: "lower g = ''index.html''"
  have "score ''index.html'' = - 9" by code_simp
  moreover have "lower ''index.html'' = ''index.html''" by code_simp
  ultimately show ?thesis using g by (simp add: score_def)
qed

lemma score_token: "has_token (lower f) \<Longrightarrow> 4 \<le> score f"
proof -
  assume t: "has_token (lower f)"
  then have ne: "lower f \<noteq> ''index.html''" using not_token_index by auto
  from t have tok: "(sublist ''10-k'' (lower f) \<or> sublist ''10k'' (lower f))
      \<or> (sublist ''20-f'' (lower f) \<or> sublist ''20f'' (lower f))"
    by (auto simp: has_token_def)
  have "0 \<le> min (int (length (lower f)) div 10) 3" by simp
  with tok ne show ?thesis
    by (auto simp: score_def Let_def)
qed

lemma max_by_in: "max_by f b xs \<in> set (b # xs)"
  by (induction xs arbitrary: b) auto

lemma max_by_ge: "x \<in> set (b # xs) \<Longrightarrow> f x \<le> f (max_by f b xs)"
proof (induction xs arbitrary: b x)
  case Nil
  then show ?case by simp
next
  case (Cons y ys)
  have mono: "f c \<le> f (max_by f c ys)" for c
    using Cons.IH[of c c] by simp
  from Cons.prems consider "x = b" | "x = y" | "x \<in> set ys" by auto
  then show ?case
  proof cases
    case 1
    show ?thesis
    proof (cases "f b < f y")
      case True
      then show ?thesis using mono[of y] 1 by simp
    next
      case False
      then show ?thesis using mono[of b] 1 by simp
    qed
  next
    case 2
    show ?thesis
    proof (cases "f b < f y")
      case True
      then show ?thesis using mono[of y] 2 by simp
    next
      case False
      then show ?thesis using mono[of b] 2 by simp
    qed
  next
    case 3
    then show ?thesis using Cons.IH by simp
  qed
qed

section \<open>What the fetches do to the world\<close>

lemma request_world:
  "evs (snd (request srv url w)) = evs w @ [Request url]"
  "files (snd (request srv url w)) = files w"
  "fst (request srv url w) = srv (evs w) url"
  by (simp_all add: request_def)

lemma sleep_world: "evs (sleep ms w) = evs w @ [Sleep ms]" "files (sleep ms w) = files w"
  by (simp_all add: sleep_def)

lemma new_events_append: "evs w' = evs w @ E \<Longrightarrow> new_events w w' = E"
  by (simp add: new_events_def)

lemma get_json_loop_world:
  "\<exists>E. evs (snd (get_json_loop srv url m b as w)) = evs w @ E
       \<and> set E \<subseteq> insert (Request url) (range Sleep)
       \<and> files (snd (get_json_loop srv url m b as w)) = files w"
proof (induction as arbitrary: w)
  case Nil
  show ?case by simp
next
  case (Cons a as)
  obtain r w1 where rq: "request srv url w = (r, w1)" by (cases "request srv url w")
  then have w1: "evs w1 = evs w @ [Request url]" "files w1 = files w"
    using request_world[of srv url w] by simp_all
  let ?ws = "sleep (b * a) w1"
  have ws: "evs ?ws = evs w @ [Request url, Sleep (b * a)]" "files ?ws = files w"
    using w1 by (simp_all add: sleep_world)
  from Cons.IH[of ?ws] obtain E where E:
    "evs (snd (get_json_loop srv url m b as ?ws)) = evs ?ws @ E"
    "set E \<subseteq> insert (Request url) (range Sleep)"
    "files (snd (get_json_loop srv url m b as ?ws)) = files ?ws" by blast
  have cont: "\<exists>E'. evs (snd (get_json_loop srv url m b as ?ws)) = evs w @ E'
       \<and> set E' \<subseteq> insert (Request url) (range Sleep)
       \<and> files (snd (get_json_loop srv url m b as ?ws)) = files w"
    using E ws by (intro exI[of _ "[Request url, Sleep (b * a)] @ E"]) auto
  have stop: "\<exists>E'. evs w1 = evs w @ E'
       \<and> set E' \<subseteq> insert (Request url) (range Sleep) \<and> files w1 = files w"
    using w1 by (intro exI[of _ "[Request url]"]) auto
  have "snd (get_json_loop srv url m b (a # as) w) = w1
      \<or> snd (get_json_loop srv url m b (a # as) w) = snd (get_json_loop srv url m b as ?ws)"
    using rq by (cases r) (auto split: if_splits)
  then show ?case using cont stop by auto
qed

lemma get_json_world:
  "\<exists>E. evs (snd (get_json srv url w)) = evs w @ E
       \<and> set E \<subseteq> insert (Request url) (range Sleep)
       \<and> files (snd (get_json srv url w)) = files w"
  unfolding get_json_def get_json_with_def by (rule get_json_loop_world)

lemma snd_index_json_items:
  "snd (index_json_items srv cik acc w) = snd (get_json srv (folder_url cik acc @ ''index.json'') w)"
  by (auto simp: index_json_items_def split: prod.splits option.splits json_doc.splits)

lemma index_json_items_world:
  "\<exists>E. evs (snd (index_json_items srv cik acc w)) = evs w @ E
       \<and> set E \<subseteq> insert (Request (folder_url cik acc @ ''index.json'')) (range Sleep)
       \<and> files (snd (index_json_items srv cik acc w)) = files w"
  unfolding snd_index_json_items by (rule get_json_world)

lemma snd_pick_html:
  "snd (pick_html_from_index_json srv cik acc w) = snd (index_json_items srv cik acc w)"
  by (auto simp: pick_html_from_index_json_def split: prod.splits list.splits)

lemma fst_pick_html:
  "fst (pick_html_from_index_json srv cik acc w) =
     (case html_names (fst (index_json_items srv cik acc w)) of
        [] \<Rightarrow> None
      | h # hs \<Rightarrow> Some (folder_url cik acc @ max_by score h hs))"
  by (auto simp: pick_html_from_index_json_def split: prod.splits list.splits)

lemma get_text_world:
  "evs (snd (get_text srv url w)) = evs w @ [Request url]"
  "files (snd (get_text srv url w)) = files w"
  using request_world[of srv url w]
  by (auto simp: get_text_def split: prod.splits response.splits)

lemma snd_parse_submission:
  "snd (parse_submission_txt_for_annual_html srv cik acc w) =
   snd (get_text srv (folder_url cik acc @ acc @ ''.txt'') w)"
  by (auto simp: parse_submission_txt_for_annual_html_def split: prod.splits option.splits)

lemma index_url_not_bundle_url:
  "folder_url cik acc @ ''index.json'' \<noteq> folder_url cik acc @ acc @ ''.txt''"
proof
  assume "folder_url cik acc @ ''index.json'' = folder_url cik acc @ acc @ ''.txt''"
  then have "''index.json'' = acc @ ''.txt''" by simp
  then have "last ''index.json'' = last (acc @ ''.txt'')" by simp
  then show False by simp
qed

section \<open>The directory-listing tier\<close>

lemma html_names_ends: "n \<in> set (html_names items) \<Longrightarrow> ends_html (lower n)"
  by (auto simp: html_names_def)

lemma listing_tier_best:
  assumes "f \<in> set (html_names (fst (index_json_items srv cik acc w)))"
    and "has_token (lower f)"
  shows "(\<forall>g. lower g = ''index.html'' \<longrightarrow> score g < score f)
       \<and> (\<exists>best. fst (pick_html_from_index_json srv cik acc w) = Some (folder_url cik acc @ best)
             \<and> best \<in> set (html_names (fst (index_json_items srv cik acc w)))
             \<and> (\<forall>h \<in> set (html_names (fst (index_json_items srv cik acc w))). score h \<le> score best)
             \<and> score f \<le> score best
             \<and> lower best \<noteq> ''index.html'')"
proof
  show "\<forall>g. lower g = ''index.html'' \<longrightarrow> score g < score f"
    using score_token[OF assms(2)] score_index by fastforce
next
  let ?names = "html_names (fst (index_json_items srv cik acc w))"
  from assms(1) obtain h hs where names: "?names = h # hs" by (cases ?names) auto
  let ?best = "max_by score h hs"
  have res: "fst (pick_html_from_index_json srv cik acc w) = Some (folder_url cik acc @ ?best)"
    by (simp add: fst_pick_html names)
  have mem: "?best \<in> set ?names" using max_by_in[of score h hs] names by simp
  have ge: "\<forall>x \<in> set ?names. score x \<le> score ?best"
    using max_by_ge[of _ h hs score] names by simp
  then have fbest: "score f \<le> score ?best" using assms(1) by blast
  have "lower ?best \<noteq> ''index.html''"
  proof
    assume "lower ?best = ''index.html''"
    then have "score ?best = - 9" by (rule score_index)
    with fbest score_token[OF assms(2)] show False by simp
  qed
  with res mem ge fbest
  show "\<exists>best. fst (pick_html_from_index_json srv cik acc w) = Some (folder_url cik acc @ best)
             \<and> best \<in> set ?names \<and> (\<forall>h \<in> set ?names. score h \<le> score best)
             \<and> score f \<le> score best \<and> lower best \<noteq> ''index.html''"
    by blast
qed

text \<open>
  C2. A name that carries a filing-type token scores strictly above every entry whose
  lower-case name is \<open>index.html\<close>; and when the listing has an HTML name with a token,
  the listing tier returns the URL of a name of the listing with the greatest score,
  which is not \<open>index.html\<close>.
\<close>

theorem tagged_document_beats_index_page:
  assumes "f \<in> set (html_names (fst (index_json_items srv cik acc w)))"
    and "has_token (lower f)"
  shows "(\<forall>g. lower g = ''index.html'' \<longrightarrow> score g < score f)
       \<and> (\<exists>best. fst (pick_html_from_index_json srv cik acc w) = Some (folder_url cik acc @ best)
             \<and> best \<in> set (html_names (fst (index_json_items srv cik acc w)))
             \<and> (\<forall>h \<in> set (html_names (fst (index_json_items srv cik acc w))). score h \<le> score best)
             \<and> score f \<le> score best
             \<and> lower best \<noteq> ''index.html'')"
  by (rule listing_tier_best[OF assms])

theorem tagged_document_beats_index_page_witness:
  "''form10-k_2023.htm'' \<in> set (html_names (fst (index_json_items listing_server ''320193'' ''000032019323000106'' empty_world)))
   \<and> has_token (lower ''form10-k_2023.htm'')
   \<and> score ''index.html'' < score ''form10-k_2023.htm''
   \<and> fst (pick_html_from_index_json listing_server ''320193'' ''000032019323000106'' empty_world)
       = Some ''https://www.sec.gov/Archives/edgar/data/320193/000032019323000106/form10-k_2023.htm''"
proof -
  have h1: "''form10-k_2023.htm'' \<in> set (html_names (fst (index_json_items listing_server ''320193'' ''000032019323000106'' empty_world)))"
    by code_simp
  have h2: "has_token (lower ''form10-k_2023.htm'')" by code_simp
  have l: "lower ''index.html'' = ''index.html''" by code_simp
  have r: "fst (pick_html_from_index_json listing_server ''320193'' ''000032019323000106'' empty_world)
       = Some ''https://www.sec.gov/Archives/edgar/data/320193/000032019323000106/form10-k_2023.htm''"
    by code_simp
  from tagged_document_beats_index_page[OF h1 h2] l
  have "score ''index.html'' < score ''form10-k_2023.htm''" by blast
  with h1 h2 r show ?thesis by blast
qed

section \<open>The order of the tiers\<close>

lemma looks_annual_iff:
  "looks_annual primary_doc \<longleftrightarrow> (\<exists>d. primary_doc = Some d \<and> ends_html (lower d) \<and> has_token (lower d))"
proof -
  have "\<not> ends_html (lower [])" by (simp add: lower_def ends_html_def)
  then show ?thesis
    by (cases primary_doc) (auto simp: looks_annual_def Let_def)
qed

lemma pick_html_url_nonempty:
  "fst (pick_html_from_index_json srv cik acc w) = Some url \<Longrightarrow> url \<noteq> []"
  by (auto simp: fst_pick_html folder_url_def split: list.splits)

lemma pick_html_events:
  "set (new_events w (snd (pick_html_from_index_json srv cik acc w)))
     \<subseteq> insert (Request (folder_url cik acc @ ''index.json'')) (range Sleep)"
proof -
  obtain E where "evs (snd (index_json_items srv cik acc w)) = evs w @ E"
    "set E \<subseteq> insert (Request (folder_url cik acc @ ''index.json'')) (range Sleep)"
    using index_json_items_world by blast
  then show ?thesis by (simp add: snd_pick_html new_events_append)
qed

text \<open>
  C1. When the declared name ends in an HTML extension and contains a filing-type
  token, the resolver returns the URL built from it and leaves the world as it was: no
  request is sent. Otherwise the listing tier runs first and sends requests for
  \<open>index.json\<close> only; its URL is returned unless it ends in \<open>/index.html\<close>, and then
  the bundle is not requested; only when the listing tier gives no such URL is the bundle
  tier run, behind it, and its result returned.
\<close>

theorem tiers_in_strict_order:
  "((\<exists>d. primary_doc = Some d \<and> ends_html (lower d) \<and> has_token (lower d)) \<longrightarrow>
      pick_best_annual_html srv cik acc primary_doc w
        = (Some (folder_url cik acc @ the primary_doc), w))
   \<and> (\<not> (\<exists>d. primary_doc = Some d \<and> ends_html (lower d) \<and> has_token (lower d)) \<longrightarrow>
        (let r2 = pick_html_from_index_json srv cik acc w;
             r3 = parse_submission_txt_for_annual_html srv cik acc (snd r2);
             accepted = (case fst r2 of Some url \<Rightarrow> \<not> suffix ''/index.html'' url | None \<Rightarrow> False)
         in set (new_events w (snd r2))
              \<subseteq> insert (Request (folder_url cik acc @ ''index.json'')) (range Sleep)
            \<and> Request (folder_url cik acc @ acc @ ''.txt'') \<notin> set (new_events w (snd r2))
            \<and> (accepted \<longrightarrow> pick_best_annual_html srv cik acc primary_doc w = r2)
            \<and> (\<not> accepted \<longrightarrow>
                 pick_best_annual_html srv cik acc primary_doc w = r3
                 \<and> new_events w (snd r3)
                     = new_events w (snd r2) @ [Request (folder_url cik acc @ acc @ ''.txt'')])))"
proof (intro conjI impI)
  assume "\<exists>d. primary_doc = Some d \<and> ends_html (lower d) \<and> has_token (lower d)"
  then have "looks_annual primary_doc" by (simp add: looks_annual_iff)
  then show "pick_best_annual_html srv cik acc primary_doc w
        = (Some (folder_url cik acc @ the primary_doc), w)"
    by (simp add: pick_best_annual_html_def)
next
  assume "\<not> (\<exists>d. primary_doc = Some d \<and> ends_html (lower d) \<and> has_token (lower d))"
  then have no1: "\<not> looks_annual primary_doc" by (simp add: looks_annual_iff)
  let ?r2 = "pick_html_from_index_json srv cik acc w"
  let ?r3 = "parse_submission_txt_for_annual_html srv cik acc (snd ?r2)"
  let ?acc = "case fst ?r2 of Some url \<Rightarrow> \<not> suffix ''/index.html'' url | None \<Rightarrow> False"
  have a: "set (new_events w (snd ?r2))
              \<subseteq> insert (Request (folder_url cik acc @ ''index.json'')) (range Sleep)"
    by (rule pick_html_events)
  have b: "Request (folder_url cik acc @ acc @ ''.txt'') \<notin> set (new_events w (snd ?r2))"
    using a index_url_not_bundle_url[of cik acc] by auto
  have c: "?acc \<longrightarrow> pick_best_annual_html srv cik acc primary_doc w = ?r2"
    using no1 pick_html_url_nonempty[of srv cik acc w]
    by (cases ?r2) (auto simp: pick_best_annual_html_def split: option.splits)
  have d1: "\<not> ?acc \<longrightarrow> pick_best_annual_html srv cik acc primary_doc w = ?r3"
    using no1 by (cases ?r2) (auto simp: pick_best_annual_html_def split: option.splits)
  have "evs (snd ?r3) = evs (snd ?r2) @ [Request (folder_url cik acc @ acc @ ''.txt'')]"
    by (simp add: snd_parse_submission get_text_world)
  moreover obtain E where "evs (snd ?r2) = evs w @ E"
    using index_json_items_world[of srv cik acc w] by (auto simp: snd_pick_html)
  ultimately have d2: "new_events w (snd ?r3)
       = new_events w (snd ?r2) @ [Request (folder_url cik acc @ acc @ ''.txt'')]"
    by (simp add: new_events_def)
  show "let r2 = ?r2; r3 = parse_submission_txt_for_annual_html srv cik acc (snd r2);
             accepted = (case fst r2 of Some url \<Rightarrow> \<not> suffix ''/index.html'' url | None \<Rightarrow> False)
         in set (new_events w (snd r2))
              \<subseteq> insert (Request (folder_url cik acc @ ''index.json'')) (range Sleep)
            \<and> Request (folder_url cik acc @ acc @ ''.txt'') \<notin> set (new_events w (snd r2))
            \<and> (accepted \<longrightarrow> pick_best_annual_html srv cik acc primary_doc w = r2)
            \<and> (\<not> accepted \<longrightarrow>
                 pick_best_annual_html srv cik acc primary_doc w = r3
                 \<and> new_events w (snd r3)
                     = new_events w (snd r2) @ [Request (folder_url cik acc @ acc @ ''.txt'')])"
    unfolding Let_def
  proof (intro conjI impI)
    show "set (new_events w (snd ?r2))
              \<subseteq> insert (Request (folder_url cik acc @ ''index.json'')) (range Sleep)"
      by (rule a)
    show "Request (folder_url cik acc @ acc @ ''.txt'') \<notin> set (new_events w (snd ?r2))"
      by (rule b)
    show "pick_best_annual_html srv cik acc primary_doc w = ?r2" if "?acc"
      using c that by (rule mp)
    show "pick_best_annual_html srv cik acc primary_doc w = ?r3" if "\<not> ?acc"
      using d1 that by (rule mp)
    show "new_events w (snd ?r3)
       = new_events w (snd ?r2) @ [Request (folder_url cik acc @ acc @ ''.txt'')]" if "\<not> ?acc"
      by (rule d2)
  qed
qed

theorem tiers_in_strict_order_witness:
  "ends_html (lower ''aapl-10k_2023.htm'') \<and> has_token (lower ''aapl-10k_2023.htm'')
   \<and> pick_best_annual_html offline ''320193'' ''000032019323000106'' (Some ''aapl-10k_2023.htm'') empty_world
       = (Some (folder_url ''320193'' ''000032019323000106'' @ ''aapl-10k_2023.htm''), empty_world)
   \<and> fst (pick_best_annual_html listing_server ''320193'' ''000032019323000106'' None empty_world)
       = Some ''https://www.sec.gov/Archives/edgar/data/320193/000032019323000106/form10-k_2023.htm''"
proof -
  have h: "ends_html (lower ''aapl-10k_2023.htm'')" "has_token (lower ''aapl-10k_2023.htm'')"
    by code_simp+
  then have ex: "\<exists>d. Some ''aapl-10k_2023.htm'' = Some d \<and> ends_html (lower d) \<and> has_token (lower d)"
    by blast
  note T1 = tiers_in_strict_order[where primary_doc = "Some ''aapl-10k_2023.htm''" and cik = "''320193''"
        and acc = "''000032019323000106''" and srv = offline and w = empty_world,
        THEN conjunct1, THEN mp, OF ex]
  have t1: "pick_best_annual_html offline ''320193'' ''000032019323000106'' (Some ''aapl-10k_2023.htm'') empty_world
       = (Some (folder_url ''320193'' ''000032019323000106'' @ ''aapl-10k_2023.htm''), empty_world)"
    using T1 by (simp only: option.sel)
  have r2: "fst (pick_html_from_index_json listing_server ''320193'' ''000032019323000106'' empty_world)
       = Some ''https://www.sec.gov/Archives/edgar/data/320193/000032019323000106/form10-k_2023.htm''"
    by code_simp
  have ok: "\<not> suffix ''/index.html'' ''https://www.sec.gov/Archives/edgar/data/320193/000032019323000106/form10-k_2023.htm''"
    by code_simp
  have nex: "\<not> (\<exists>d. (None :: string option) = Some d \<and> ends_html (lower d) \<and> has_token (lower d))"
    by simp
  have accepted: "case fst (pick_html_from_index_json listing_server ''320193'' ''000032019323000106'' empty_world) of
      Some url \<Rightarrow> \<not> suffix ''/index.html'' url | None \<Rightarrow> False"
    by (simp only: r2 option.case ok not_False_eq_True)
  note T2 = tiers_in_strict_order[where primary_doc = None and cik = "''320193''"
        and acc = "''000032019323000106''" and srv = listing_server and w = empty_world,
        THEN conjunct2, THEN mp, OF nex, unfolded Let_def,
        THEN conjunct2, THEN conjunct2, THEN conjunct1, THEN mp, OF accepted]
  have "fst (pick_best_annual_html listing_server ''320193'' ''000032019323000106'' None empty_world)
       = Some ''https://www.sec.gov/Archives/edgar/data/320193/000032019323000106/form10-k_2023.htm''"
    unfolding T2 by (rule r2)
  with h t1 show ?thesis by (intro conjI)
qed

section \<open>The bundle tier\<close>

lemma parse_blocks_find:
  "parse_blocks cik acc blocks =
     (case find block_qualifies blocks of
        None \<Rightarrow> None
      | Some b \<Rightarrow> Some (folder_url cik acc @ block_filename b))"
  by (induction blocks)
     (auto simp: block_qualifies_def block_filename_def split: option.splits)

lemma extract_blocks_find:
  "extract_blocks blocks =
     (case find block_qualifies blocks of None \<Rightarrow> None | Some b \<Rightarrow> Some (block_filename b))"
  by (induction blocks)
     (auto simp: block_qualifies_def block_filename_def split: option.splits)

lemma fst_parse_submission:
  "fst (parse_submission_txt_for_annual_html srv cik acc w) =
     (case fst (get_text srv (folder_url cik acc @ acc @ ''.txt'') w) of
        None \<Rightarrow> None
      | Some txt \<Rightarrow> parse_blocks cik acc (doc_blocks txt))"
  by (auto simp: parse_submission_txt_for_annual_html_def split: prod.splits option.splits)

text \<open>
  C4. With the bundle text fetched, tier 3 returns the URL of the file name of the
  first block, in the order of the text, whose type label is one of \<open>10-K\<close>, \<open>10-K/A\<close>,
  \<open>20-F\<close>, \<open>20-F/A\<close> and whose file name ends in an HTML extension: no block before it
  qualifies. It returns nothing exactly when no block qualifies. For a bundle of two
  blocks, the first of type \<open>EX-10.1\<close> and the second of type \<open>10-K\<close> with a file name
  in \<open>.htm\<close>, it returns the URL of the second block's file name.
\<close>

theorem bundle_tier_first_qualifying_block:
  assumes "fst (get_text srv (folder_url cik acc @ acc @ ''.txt'') w) = Some txt"
  shows "(fst (parse_submission_txt_for_annual_html srv cik acc w) = None
            \<longleftrightarrow> (\<forall>b \<in> set (doc_blocks txt). \<not> block_qualifies b))
       \<and> (\<forall>url. fst (parse_submission_txt_for_annual_html srv cik acc w) = Some url \<longleftrightarrow>
             (\<exists>i < length (doc_blocks txt).
                 block_qualifies (doc_blocks txt ! i)
               \<and> (\<forall>j < i. \<not> block_qualifies (doc_blocks txt ! j))
               \<and> url = folder_url cik acc @ block_filename (doc_blocks txt ! i)))
       \<and> (\<forall>b1 b2 f2. doc_blocks txt = [b1, b2]
             \<and> search_tag ''<TYPE>'' b1 = Some ''EX-10.1''
             \<and> search_tag ''<TYPE>'' b2 = Some ''10-K''
             \<and> search_tag ''<FILENAME>'' b2 = Some f2 \<and> suffix ''.htm'' (lower f2)
             \<longrightarrow> fst (parse_submission_txt_for_annual_html srv cik acc w)
                   = Some (folder_url cik acc @ f2))"
proof (intro conjI allI impI)
  let ?r = "fst (parse_submission_txt_for_annual_html srv cik acc w)"
  have r: "?r = (case find block_qualifies (doc_blocks txt) of
        None \<Rightarrow> None
      | Some b \<Rightarrow> Some (folder_url cik acc @ block_filename b))"
    by (simp add: fst_parse_submission assms parse_blocks_find)
  show "?r = None \<longleftrightarrow> (\<forall>b \<in> set (doc_blocks txt). \<not> block_qualifies b)"
  proof -
    have "(?r = None) = (find block_qualifies (doc_blocks txt) = None)"
      unfolding r by (simp split: option.splits)
    then show ?thesis by (auto simp: find_None_iff)
  qed
  show "?r = Some url \<longleftrightarrow>
             (\<exists>i < length (doc_blocks txt).
                 block_qualifies (doc_blocks txt ! i)
               \<and> (\<forall>j < i. \<not> block_qualifies (doc_blocks txt ! j))
               \<and> url = folder_url cik acc @ block_filename (doc_blocks txt ! i))" for url
  proof
    assume "?r = Some url"
    then obtain b where b: "find block_qualifies (doc_blocks txt) = Some b"
      "url = folder_url cik acc @ block_filename b"
      unfolding r by (auto split: option.splits)
    from b(1) obtain i where "i < length (doc_blocks txt)" "block_qualifies (doc_blocks txt ! i)"
      "b = doc_blocks txt ! i" "\<forall>j < i. \<not> block_qualifies (doc_blocks txt ! j)"
      unfolding find_Some_iff by blast
    with b(2) show "\<exists>i < length (doc_blocks txt).
                 block_qualifies (doc_blocks txt ! i)
               \<and> (\<forall>j < i. \<not> block_qualifies (doc_blocks txt ! j))
               \<and> url = folder_url cik acc @ block_filename (doc_blocks txt ! i)" by blast
  next
    assume "\<exists>i < length (doc_blocks txt).
                 block_qualifies (doc_blocks txt ! i)
               \<and> (\<forall>j < i. \<not> block_qualifies (doc_blocks txt ! j))
               \<and> url = folder_url cik acc @ block_filename (doc_blocks txt ! i)"
    then obtain i where i: "i < length (doc_blocks txt)" "block_qualifies (doc_blocks txt ! i)"
      "\<forall>j < i. \<not> block_qualifies (doc_blocks txt ! j)"
      "url = folder_url cik acc @ block_filename (doc_blocks txt ! i)" by blast
    then have "find block_qualifies (doc_blocks txt) = Some (doc_blocks txt ! i)"
      unfolding find_Some_iff by blast
    with i(4) show "?r = Some url" unfolding r by simp
  qed
next
  fix b1 b2 f2
  assume h: "doc_blocks txt = [b1, b2]
             \<and> search_tag ''<TYPE>'' b1 = Some ''EX-10.1''
             \<and> search_tag ''<TYPE>'' b2 = Some ''10-K''
             \<and> search_tag ''<FILENAME>'' b2 = Some f2 \<and> suffix ''.htm'' (lower f2)"
  have u1: "upper ''EX-10.1'' \<notin> set annual_types" by code_simp
  have u2: "upper ''10-K'' \<in> set annual_types" by code_simp
  from h u1 have q1: "\<not> block_qualifies b1"
    by (auto simp: block_qualifies_def split: option.splits)
  from h u2 have q2: "block_qualifies b2" "block_filename b2 = f2"
    by (auto simp: block_qualifies_def block_filename_def ends_html_def)
  show "fst (parse_submission_txt_for_annual_html srv cik acc w) = Some (folder_url cik acc @ f2)"
    using h q1 q2 by (simp add: fst_parse_submission assms parse_blocks_find)
qed

theorem bundle_tier_first_qualifying_block_witness:
  "fst (get_text bundle_server
          (folder_url ''320193'' ''000032019303000106'' @ ''000032019303000106'' @ ''.txt'') empty_world)
     = Some example_bundle
   \<and> doc_blocks example_bundle
       = [[CHR 0x0A] @ ''<TYPE>EX-10.1'' @ [CHR 0x0A] @ ''<FILENAME>ex101.htm'' @ [CHR 0x0A]
            @ ''<TEXT>a</TEXT>'' @ [CHR 0x0A],
          [CHR 0x0A] @ ''<TYPE>10-K'' @ [CHR 0x0A] @ ''<FILENAME>annual.htm'' @ [CHR 0x0A]
            @ ''<TEXT>b</TEXT>'' @ [CHR 0x0A]]
   \<and> fst (parse_submission_txt_for_annual_html bundle_server ''320193'' ''000032019303000106'' empty_world)
       = Some ''https://www.sec.gov/Archives/edgar/data/320193/000032019303000106/annual.htm''"
proof -
  let ?b1 = "[CHR 0x0A] @ ''<TYPE>EX-10.1'' @ [CHR 0x0A] @ ''<FILENAME>ex101.htm'' @ [CHR 0x0A]
            @ ''<TEXT>a</TEXT>'' @ [CHR 0x0A]"
  let ?b2 = "[CHR 0x0A] @ ''<TYPE>10-K'' @ [CHR 0x0A] @ ''<FILENAME>annual.htm'' @ [CHR 0x0A]
            @ ''<TEXT>b</TEXT>'' @ [CHR 0x0A]"
  have g: "fst (get_text bundle_server
          (folder_url ''320193'' ''000032019303000106'' @ ''000032019303000106'' @ ''.txt'') empty_world)
     = Some example_bundle" by code_simp
  have db: "doc_blocks example_bundle = [?b1, ?b2]" by code_simp
  have t0: "search_tag ''<TYPE>'' ?b1 = Some ''EX-10.1''" by code_simp
  have t1: "search_tag ''<TYPE>'' ?b2 = Some ''10-K''" by code_simp
  have f1: "search_tag ''<FILENAME>'' ?b2 = Some ''annual.htm''" by code_simp
  have s: "suffix ''.htm'' (lower ''annual.htm'')" by code_simp
  have u: "folder_url ''320193'' ''000032019303000106'' @ ''annual.htm''
      = ''https://www.sec.gov/Archives/edgar/data/320193/000032019303000106/annual.htm''"
    by code_simp
  from bundle_tier_first_qualifying_block[OF g, THEN conjunct2, THEN conjunct2, THEN spec, THEN spec, THEN spec,
      THEN mp, of ?b1 ?b2 "''annual.htm''"]
    db t0 t1 f1 s
  have "fst (parse_submission_txt_for_annual_html bundle_server ''320193'' ''000032019303000106'' empty_world)
       = Some (folder_url ''320193'' ''000032019303000106'' @ ''annual.htm'')" by blast
  with g db u show ?thesis by (simp only:)
qed

section \<open>The two scanners of the bundle\<close>

text \<open>
  C6. On every text, the file name that \<open>_extract_annual_html_from_sgml\<close> returns is
  the file-name part of the URL that the tier-3 loop returns: the URL is the folder URL
  followed by that name, and the two return nothing together. Tier 3 run on a fetched
  text returns what the extraction returns on that text, behind the folder URL.
\<close>

theorem bundle_scanners_agree:
  "parse_blocks cik acc (doc_blocks txt)
     = map_option (\<lambda>fname. folder_url cik acc @ fname) (extract_annual_html_from_sgml txt)
   \<and> (parse_blocks cik acc (doc_blocks txt) = None \<longleftrightarrow> extract_annual_html_from_sgml txt = None)
   \<and> fst (parse_submission_txt_for_annual_html srv cik acc w)
       = (case fst (get_text srv (folder_url cik acc @ acc @ ''.txt'') w) of
            None \<Rightarrow> None
          | Some t \<Rightarrow> map_option (\<lambda>fname. folder_url cik acc @ fname) (extract_annual_html_from_sgml t))"
proof -
  have eq: "parse_blocks cik acc bs = map_option (\<lambda>fname. folder_url cik acc @ fname) (extract_blocks bs)" for bs
    by (induction bs) (auto split: option.splits)
  show ?thesis
    by (auto simp: eq extract_annual_html_from_sgml_def fst_parse_submission split: option.splits)
qed

theorem bundle_scanners_agree_witness:
  "extract_annual_html_from_sgml example_bundle = Some ''annual.htm''
   \<and> parse_blocks ''320193'' ''000032019303000106'' (doc_blocks example_bundle)
       = Some (folder_url ''320193'' ''000032019303000106'' @ ''annual.htm'')"
proof -
  note A = bundle_scanners_agree[THEN conjunct1]
  have e: "extract_annual_html_from_sgml example_bundle = Some ''annual.htm''" by code_simp
  have "parse_blocks ''320193'' ''000032019303000106'' (doc_blocks example_bundle)
       = Some (folder_url ''320193'' ''000032019303000106'' @ ''annual.htm'')"
    unfolding A e by simp
  with e show ?thesis by (intro conjI)
qed

section \<open>The shape of a resolved URL\<close>

lemma lower_char_slash: "lower_char c = CHR ''/'' \<longleftrightarrow> c = CHR ''/''"
  by (auto simp: lower_char_def upper_letters_def lower_letters_def)

lemma last_component_lower: "last_component (lower s) = lower (last_component s)"
proof -
  have "(\<lambda>c. c \<noteq> CHR ''/'') \<circ> lower_char = (\<lambda>c. c \<noteq> CHR ''/'')"
    by (auto simp: lower_char_slash)
  then show ?thesis
    by (simp add: last_component_def lower_def rev_map takeWhile_map)
qed

lemma last_component_suffix:
  assumes "suffix e s" and "CHR ''/'' \<notin> set e"
  shows "suffix e (last_component s)"
proof -
  from assms(1) obtain p where s: "s = p @ e" by (auto simp: suffix_def)
  have "takeWhile (\<lambda>c. c \<noteq> CHR ''/'') (rev e @ rev p)
      = rev e @ takeWhile (\<lambda>c. c \<noteq> CHR ''/'') (rev p)"
    using assms(2) by (intro takeWhile_append2) auto
  then show ?thesis by (simp add: last_component_def s suffix_def)
qed

lemma ends_html_last_component:
  assumes "ends_html (lower fname)"
  shows "ends_html (lower (last_component (pre @ fname)))"
proof -
  from assms have "suffix ''.htm'' (lower (pre @ fname)) \<or> suffix ''.html'' (lower (pre @ fname))"
    by (auto simp: ends_html_def lower_def suffix_def)
  then have "suffix ''.htm'' (last_component (lower (pre @ fname)))
      \<or> suffix ''.html'' (last_component (lower (pre @ fname)))"
    using last_component_suffix[of "''.htm''"] last_component_suffix[of "''.html''"] by auto
  then show ?thesis by (simp add: ends_html_def last_component_lower)
qed

lemma archive_html_urlI:
  "ends_html (lower fname) \<Longrightarrow> archive_html_url cik acc (folder_url cik acc @ fname)"
  unfolding archive_html_url_def using ends_html_last_component by blast

lemma pick_html_archive:
  assumes "fst (pick_html_from_index_json srv cik acc w) = Some url"
  shows "archive_html_url cik acc url"
proof -
  let ?names = "html_names (fst (index_json_items srv cik acc w))"
  from assms obtain h hs where names: "?names = h # hs" and url: "url = folder_url cik acc @ max_by score h hs"
    by (auto simp: fst_pick_html split: list.splits)
  have "max_by score h hs \<in> set ?names" using max_by_in[of score h hs] names by simp
  then have "ends_html (lower (max_by score h hs))" by (rule html_names_ends)
  then show ?thesis unfolding url by (rule archive_html_urlI)
qed

lemma block_qualifies_filename: "block_qualifies b \<Longrightarrow> ends_html (lower (block_filename b))"
  by (auto simp: block_qualifies_def block_filename_def split: option.splits)

lemma parse_submission_archive:
  assumes "fst (parse_submission_txt_for_annual_html srv cik acc w) = Some url"
  shows "archive_html_url cik acc url"
proof -
  from assms obtain body b where fnd: "find block_qualifies (doc_blocks body) = Some b"
    and url: "url = folder_url cik acc @ block_filename b"
    by (auto simp: fst_parse_submission parse_blocks_find split: option.splits)
  from fnd have "block_qualifies b" by (auto simp: find_Some_iff)
  then have "ends_html (lower (block_filename b))" by (rule block_qualifies_filename)
  then show ?thesis unfolding url by (rule archive_html_urlI)
qed

lemma pick_best_cases:
  "fst (pick_best_annual_html srv cik acc primary_doc w) = Some url \<Longrightarrow>
     (looks_annual primary_doc \<and> url = folder_url cik acc @ the primary_doc)
   \<or> (\<not> looks_annual primary_doc \<and> fst (pick_html_from_index_json srv cik acc w) = Some url
        \<and> \<not> suffix ''/index.html'' url)
   \<or> (\<not> looks_annual primary_doc
        \<and> fst (parse_submission_txt_for_annual_html srv cik acc
                 (snd (pick_html_from_index_json srv cik acc w))) = Some url)"
  by (cases "pick_html_from_index_json srv cik acc w")
     (auto simp: pick_best_annual_html_def split: if_splits option.splits)

lemma pick_best_archive:
  assumes "fst (pick_best_annual_html srv cik acc primary_doc w) = Some url"
  shows "archive_html_url cik acc url"
proof -
  from pick_best_cases[OF assms]
  consider (t1) "looks_annual primary_doc" "url = folder_url cik acc @ the primary_doc"
    | (t2) "fst (pick_html_from_index_json srv cik acc w) = Some url"
    | (t3) "fst (parse_submission_txt_for_annual_html srv cik acc
                 (snd (pick_html_from_index_json srv cik acc w))) = Some url"
    by blast
  then show ?thesis
  proof cases
    case t1
    then obtain d where "primary_doc = Some d" "ends_html (lower d)"
      by (auto simp: looks_annual_iff)
    with t1(2) show ?thesis by (simp add: archive_html_urlI)
  next
    case t2
    then show ?thesis by (rule pick_html_archive)
  next
    case t3
    then show ?thesis by (rule parse_submission_archive)
  qed
qed

lemma resolve_candidates_archive:
  "f \<in> set (fst (resolve_candidates srv cik_no_zeros cs w)) \<Longrightarrow>
     archive_html_url cik_no_zeros (filter (\<lambda>x. x \<noteq> CHR ''-'') (f_accession f)) (f_url f)"
proof (induction cs arbitrary: w)
  case Nil
  then show ?case by simp
next
  case (Cons c cs)
  let ?acc = "filter (\<lambda>x. x \<noteq> CHR ''-'') (cand_accession c)"
  obtain u w1 where pb: "pick_best_annual_html srv cik_no_zeros ?acc (cand_primary_doc c) w = (u, w1)"
    by (cases "pick_best_annual_html srv cik_no_zeros ?acc (cand_primary_doc c) w")
  show ?case
  proof (cases "\<exists>use_url. u = Some use_url \<and> use_url \<noteq> []")
    case False
    then have "fst (resolve_candidates srv cik_no_zeros (c # cs) w)
        = fst (resolve_candidates srv cik_no_zeros cs w1)"
      using pb by (auto simp: Let_def split: option.splits)
    with Cons show ?thesis by simp
  next
    case True
    then obtain use_url where u: "u = Some use_url" "use_url \<noteq> []" by blast
    have "fst (resolve_candidates srv cik_no_zeros (c # cs) w)
        = Filing (cand_filing_date c) use_url (cand_accession c) (cand_form c)
            (suffix ''/A'' (cand_form c)) # fst (resolve_candidates srv cik_no_zeros cs w1)"
      using pb u by (auto simp: Let_def split: prod.splits)
    with Cons.prems consider
      "f = Filing (cand_filing_date c) use_url (cand_accession c) (cand_form c) (suffix ''/A'' (cand_form c))"
      | "f \<in> set (fst (resolve_candidates srv cik_no_zeros cs w1))" by auto
    then show ?thesis
    proof cases
      case 1
      have "archive_html_url cik_no_zeros ?acc use_url"
        using pick_best_archive[of srv cik_no_zeros ?acc "cand_primary_doc c" w use_url] pb u by simp
      with 1 show ?thesis by simp
    next
      case 2
      then show ?thesis by (rule Cons.IH)
    qed
  qed
qed

lemma get_annual_archive:
  assumes "f \<in> set (fst (get_annual_filings_html srv cik count include_amends include_20f w))"
  shows "\<exists>n. py_int cik = Some n
           \<and> archive_html_url (str_int n) (filter (\<lambda>x. x \<noteq> CHR ''-'') (f_accession f)) (f_url f)"
proof -
  from assms obtain n cs w1 where "py_int cik = Some n"
    "f \<in> set (fst (resolve_candidates srv (str_int n) cs w1))"
    by (auto simp: get_annual_filings_html_def
             split: prod.splits option.splits json_doc.splits if_splits)
  then show ?thesis using resolve_candidates_archive by blast
qed

text \<open>
  C10, as amended. Every URL that the listing tier, the bundle tier or the whole
  resolver returns is the archive folder URL of the identifier and accession it was
  called with, followed by a file name whose lower-case form ends in \<open>.htm\<close> or
  \<open>.html\<close>, in all three tiers; the last path component of the URL ends so too. In
  the result of \<open>get_annual_filings_html\<close> the identifier in the folder URL is the
  decimal rendering of the number read from the identifier string, and the accession is
  the filing's accession without dashes.
\<close>

theorem resolved_url_shape:
  "(fst (pick_html_from_index_json srv cik acc w) = Some url \<longrightarrow> archive_html_url cik acc url)
   \<and> (fst (parse_submission_txt_for_annual_html srv cik acc w) = Some url
        \<longrightarrow> archive_html_url cik acc url)
   \<and> (fst (pick_best_annual_html srv cik acc primary_doc w) = Some url
        \<longrightarrow> archive_html_url cik acc url)
   \<and> (\<forall>f \<in> set (fst (get_annual_filings_html srv cik count include_amends include_20f w)).
        \<exists>n. py_int cik = Some n
           \<and> archive_html_url (str_int n) (filter (\<lambda>x. x \<noteq> CHR ''-'') (f_accession f)) (f_url f))"
proof (intro conjI impI ballI)
  show "archive_html_url cik acc url" if "fst (pick_html_from_index_json srv cik acc w) = Some url"
    using that by (rule pick_html_archive)
  show "archive_html_url cik acc url"
    if "fst (parse_submission_txt_for_annual_html srv cik acc w) = Some url"
    using that by (rule parse_submission_archive)
  show "archive_html_url cik acc url"
    if "fst (pick_best_annual_html srv cik acc primary_doc w) = Some url"
    using that by (rule pick_best_archive)
  show "\<exists>n. py_int cik = Some n
           \<and> archive_html_url (str_int n) (filter (\<lambda>x. x \<noteq> CHR ''-'') (f_accession f)) (f_url f)"
    if "f \<in> set (fst (get_annual_filings_html srv cik count include_amends include_20f w))" for f
    using that by (rule get_annual_archive)
qed

theorem resolved_url_shape_witness:
  "fst (pick_best_annual_html offline ''320193'' ''000032019323000106'' (Some ''AAPL-10K.HTM'') empty_world)
     = Some ''https://www.sec.gov/Archives/edgar/data/320193/000032019323000106/AAPL-10K.HTM''
   \<and> archive_html_url ''320193'' ''000032019323000106''
        ''https://www.sec.gov/Archives/edgar/data/320193/000032019323000106/AAPL-10K.HTM''"
proof -
  have r: "fst (pick_best_annual_html offline ''320193'' ''000032019323000106'' (Some ''AAPL-10K.HTM'') empty_world)
     = Some ''https://www.sec.gov/Archives/edgar/data/320193/000032019323000106/AAPL-10K.HTM''"
    by code_simp
  from resolved_url_shape[THEN conjunct2, THEN conjunct2, THEN conjunct1, THEN mp, OF r] r
  show ?thesis by (intro conjI)
qed

text \<open>
  C10, as stated, fails in tier 1: the declared name \<open>AAPL-10K.HTM\<close> passes the test,
  which lower-cases it, and the URL returned ends in \<open>.HTM\<close>, neither in \<open>.htm\<close> nor
  in \<open>.html\<close>.
\<close>

theorem declared_name_extension_counterexample:
  "fst (pick_best_annual_html offline ''320193'' ''000032019323000106'' (Some ''AAPL-10K.HTM'') empty_world)
     = Some ''https://www.sec.gov/Archives/edgar/data/320193/000032019323000106/AAPL-10K.HTM''
   \<and> \<not> ends_html (last_component
          ''https://www.sec.gov/Archives/edgar/data/320193/000032019323000106/AAPL-10K.HTM'')"
  by code_simp

section \<open>The whole resolver and the index page\<close>

lemma suffix_index_in_folder:
  assumes "suffix ''/index.html'' (folder_url cik acc @ n)"
  shows "n = ''index.html'' \<or> suffix ''/index.html'' n"
proof -
  from assms consider "suffix ''/index.html'' n"
    | xs where "suffix xs (folder_url cik acc)" "''/index.html'' = xs @ n"
    by (auto simp: suffix_append)
  then show ?thesis
  proof cases
    case 1
    then show ?thesis by simp
  next
    case 2
    show ?thesis
    proof (cases xs)
      case Nil
      with 2 show ?thesis by simp
    next
      case (Cons x rest)
      with 2(2) have x: "x = CHR ''/''" and rest: "''index.html'' = rest @ n" by simp_all
      have "rest = []"
      proof (rule ccontr)
        assume ne: "rest \<noteq> []"
        from 2(1) obtain p where "folder_url cik acc = p @ xs" by (auto simp: suffix_def)
        moreover have "last (folder_url cik acc) = CHR ''/''" by (simp add: folder_url_def)
        ultimately have "last xs = CHR ''/''" using Cons by simp
        then have "last rest = CHR ''/''" using Cons ne by simp
        then have "CHR ''/'' \<in> set rest" using ne last_in_set by metis
        then have "CHR ''/'' \<in> set ''index.html''" unfolding rest by simp
        then show False by simp
      qed
      with rest show ?thesis by simp
    qed
  qed
qed

text \<open>
  The same for the whole resolver, when no HTML name of the listing ends in
  \<open>/index.html\<close>: with a token-carrying HTML name in the listing, the resolver returns
  a URL, and not the one of \<open>index.html\<close>.
\<close>

lemma resolver_avoids_index_page:
  assumes "f \<in> set (html_names (fst (index_json_items srv cik acc w)))"
    and "has_token (lower f)"
    and "\<forall>n \<in> set (html_names (fst (index_json_items srv cik acc w))). \<not> suffix ''/index.html'' n"
  shows "\<exists>fname. fst (pick_best_annual_html srv cik acc primary_doc w) = Some (folder_url cik acc @ fname)
           \<and> lower fname \<noteq> ''index.html''"
proof (cases "looks_annual primary_doc")
  case True
  then obtain d where d: "primary_doc = Some d" "has_token (lower d)"
    by (auto simp: looks_annual_iff)
  then have "lower d \<noteq> ''index.html''" using not_token_index by auto
  with True d show ?thesis by (auto simp: pick_best_annual_html_def)
next
  case False
  from listing_tier_best[OF assms(1,2)]
  obtain best where best: "fst (pick_html_from_index_json srv cik acc w) = Some (folder_url cik acc @ best)"
    "best \<in> set (html_names (fst (index_json_items srv cik acc w)))" "lower best \<noteq> ''index.html''"
    by blast
  have "lower ''index.html'' = ''index.html''" by code_simp
  with best(3) have "best \<noteq> ''index.html''" by auto
  with best(2) assms(3) have "\<not> suffix ''/index.html'' (folder_url cik acc @ best)"
    using suffix_index_in_folder by blast
  with False best show ?thesis
    by (cases "pick_html_from_index_json srv cik acc w")
       (auto simp: pick_best_annual_html_def folder_url_def)
qed

section \<open>The filing catalog\<close>

lemma collect_candidates_parallel:
  assumes "parallel rc" and "forms = drop i (r_form rc)" and "i \<le> length (r_form rc)"
  shows "collect_candidates wl rc i forms =
     Some (filter (\<lambda>c. cand_form c \<in> set wl)
       (map (\<lambda>i. Candidate (r_form rc ! i) (r_accessionNumber rc ! i) (r_filingDate rc ! i)
                (r_primaryDocument rc ! i)) [i ..< length (r_form rc)]))"
  using assms
proof (induction forms arbitrary: i)
  case Nil
  then have "length (r_form rc) \<le> i" by simp
  then show ?case by simp
next
  case (Cons form rest)
  from Cons.prems(2) have lt: "i < length (r_form rc)"
    by (metis drop_all leI list.distinct(1))
  with Cons.prems(2) have form: "form = r_form rc ! i" and rest: "rest = drop (Suc i) (r_form rc)"
    by (simp_all add: Cons_nth_drop_Suc[symmetric])
  have upt: "[i ..< length (r_form rc)] = i # [Suc i ..< length (r_form rc)]"
    using lt by (simp add: upt_conv_Cons)
  have ih: "collect_candidates wl rc (Suc i) rest =
     Some (filter (\<lambda>c. cand_form c \<in> set wl)
       (map (\<lambda>i. Candidate (r_form rc ! i) (r_accessionNumber rc ! i) (r_filingDate rc ! i)
                (r_primaryDocument rc ! i)) [Suc i ..< length (r_form rc)]))"
    using Cons.IH[OF Cons.prems(1) rest] lt by simp
  have inb: "i < length (r_accessionNumber rc)" "i < length (r_filingDate rc)"
    "i < length (r_primaryDocument rc)"
    using lt Cons.prems(1) by (simp_all add: parallel_def)
  show ?case
    unfolding upt using ih inb form by simp
qed

lemma sort_reverse_set: "set (sort_reverse f xs) = set xs"
  by (simp add: sort_reverse_def)

lemma sort_reverse_length: "length (sort_reverse f xs) = length xs"
  by (simp add: sort_reverse_def)

lemma sort_reverse_descending: "sorted_wrt (\<lambda>a b. f b \<le> f a) (sort_reverse f xs)"
proof -
  have "sorted (map f (sort_key f (rev xs)))" by simp
  then have "sorted_wrt (\<lambda>a b. f a \<le> f b) (sort_key f (rev xs))"
    by (simp add: sorted_map)
  then show ?thesis
    by (simp add: sort_reverse_def sorted_wrt_rev)
qed

lemma sort_reverse_stable:
  "filter (\<lambda>x. f x = k) (sort_reverse f xs) = filter (\<lambda>x. f x = k) xs"
proof -
  have "filter (\<lambda>x. f x = k) (sort_reverse f xs)
      = rev (filter (\<lambda>x. f x = k) (sort_key f (rev xs)))"
    by (simp add: sort_reverse_def rev_filter)
  also have "\<dots> = rev (filter (\<lambda>x. f x = k) (rev xs))"
    by (simp add: sort_key_stable)
  also have "\<dots> = filter (\<lambda>x. f x = k) xs"
    by (simp add: rev_filter)
  finally show ?thesis .
qed

lemma select_candidates_ranked:
  assumes "parallel rc" and "0 \<le> count"
  shows "select_candidates rc count include_amends include_20f
     = Some (take (nat count)
         (sort_reverse cand_filing_date
            (filter (wanted include_amends include_20f) (feed_entries rc))))"
proof -
  have w: "wanted include_amends include_20f
      = (\<lambda>c. cand_form c \<in> set (wanted_forms include_amends include_20f))"
    by (simp add: wanted_def fun_eq_iff)
  have "collect_candidates (wanted_forms include_amends include_20f) rc 0 (r_form rc)
      = Some (filter (wanted include_amends include_20f) (feed_entries rc))"
    using collect_candidates_parallel[OF assms(1), of "r_form rc" 0]
    by (simp add: feed_entries_def w)
  then show ?thesis
    using assms(2) by (simp add: select_candidates_def slice_to_def)
qed

lemma resolution_nonempty: "fst (resolution_of srv k c w) = Some u \<Longrightarrow> u \<noteq> []"
proof -
  assume "fst (resolution_of srv k c w) = Some u"
  then have "archive_html_url k (filter (\<lambda>x. x \<noteq> CHR ''-'') (cand_accession c)) u"
    unfolding resolution_of_def by (rule pick_best_archive)
  then show ?thesis by (auto simp: archive_html_url_def folder_url_def)
qed

lemma resolve_candidates_Cons:
  "resolve_candidates srv k (c # cs) w =
     ((case fst (resolution_of srv k c w) of Some u \<Rightarrow> [filing_of c u] | None \<Rightarrow> [])
        @ fst (resolve_candidates srv k cs (snd (resolution_of srv k c w))),
      snd (resolve_candidates srv k cs (snd (resolution_of srv k c w))))"
proof (cases "fst (resolution_of srv k c w)")
  case None
  then show ?thesis
    by (cases "resolution_of srv k c w")
       (simp add: resolution_of_def Let_def)
next
  case (Some u)
  then have "u \<noteq> []" by (rule resolution_nonempty)
  with Some show ?thesis
    by (cases "resolution_of srv k c w")
       (simp add: resolution_of_def Let_def filing_of_def split: prod.splits)
qed

text \<open>
  What the loop of \<open>get_annual_filings_html\<close> returns are the entries of the
  candidates whose resolution gives a URL, each resolved in the world the candidates
  before it have left, in the order of the candidates.
\<close>

lemma resolve_candidates_entries:
  "fst (resolve_candidates srv k cs w) = resolved_entries srv k cs w"
proof (induction cs arbitrary: w)
  case Nil
  show ?case by (simp add: resolved_entries_def)
next
  case (Cons c cs)
  let ?w1 = "snd (resolution_of srv k c w)"
  let ?g = "\<lambda>xs v i. case fst (resolution_of srv k (xs ! i) (world_before srv k xs v i)) of
                         Some use_url \<Rightarrow> [filing_of (xs ! i) use_url]
                       | None \<Rightarrow> []"
  have "[0 ..< Suc (length cs)] = 0 # [Suc 0 ..< Suc (length cs)]"
    by (rule upt_conv_Cons) simp
  then have upt: "[0 ..< length (c # cs)] = 0 # map Suc [0 ..< length cs]"
    by (simp only: map_Suc_upt list.size length_Cons) simp
  have w0: "world_before srv k (c # cs) w 0 = w"
    by (simp add: world_before_def)
  have wS: "world_before srv k (c # cs) w (Suc i) = world_before srv k cs ?w1 i" for i
    by (simp add: world_before_def resolve_candidates_Cons del: resolve_candidates.simps)
  have "resolved_entries srv k (c # cs) w
      = ?g (c # cs) w 0 @ concat (map (\<lambda>i. ?g (c # cs) w (Suc i)) [0 ..< length cs])"
    unfolding resolved_entries_def upt by (simp add: comp_def)
  also have "\<dots> = (case fst (resolution_of srv k c w) of Some u \<Rightarrow> [filing_of c u] | None \<Rightarrow> [])
      @ resolved_entries srv k cs ?w1"
    by (simp add: w0 wS resolved_entries_def cong: option.case_cong)
  also have "\<dots> = fst (resolve_candidates srv k (c # cs) w)"
    by (simp add: resolve_candidates_Cons Cons.IH del: resolve_candidates.simps)
  finally show ?case by simp
qed

lemma resolve_candidates_declared:
  assumes "\<forall>c \<in> set cs. looks_annual (cand_primary_doc c)"
  shows "resolve_candidates srv k cs w =
     (map (\<lambda>c. filing_of c (folder_url k (filter (\<lambda>x. x \<noteq> CHR ''-'') (cand_accession c))
                               @ the (cand_primary_doc c))) cs, w)"
  using assms
proof (induction cs)
  case Nil
  show ?case by simp
next
  case (Cons c cs)
  then have "resolution_of srv k c w
      = (Some (folder_url k (filter (\<lambda>x. x \<noteq> CHR ''-'') (cand_accession c))
                 @ the (cand_primary_doc c)), w)"
    by (simp add: resolution_of_def pick_best_annual_html_def)
  with Cons show ?case
    by (simp add: resolve_candidates_Cons del: resolve_candidates.simps)
qed

lemma get_annual_unfold:
  assumes "fst (get_json srv (''https://data.sec.gov/submissions/CIK'' @ cik @ ''.json'') w)
             = Some (FilingHistory rc)"
    and "select_candidates rc count include_amends include_20f = Some cs"
  shows "fst (get_annual_filings_html srv cik count include_amends include_20f w) =
     (case py_int cik of
        None \<Rightarrow> []
      | Some n \<Rightarrow> fst (resolve_candidates srv (str_int n) cs
                        (snd (get_json srv (''https://data.sec.gov/submissions/CIK'' @ cik @ ''.json'') w))))"
  using assms
  by (cases "get_json srv (''https://data.sec.gov/submissions/CIK'' @ cik @ ''.json'') w")
     (auto simp: get_annual_filings_html_def split: option.splits)

text \<open>
  C5, as amended. For a fetched feed of parallel arrays and a count \<open>N \<ge> 0\<close>, the
  catalog client ranks the entries whose form is in the requested set in descending
  order of filing date, entries of one filing date in feed order, and takes the first
  \<open>N\<close> as candidates: five of eight for \<open>N = 5\<close>. What it returns are the entries of
  those candidates whose document resolution gives a URL, in that order, and nothing
  when the identifier is no number. When the declared name of every candidate passes
  the test of tier 1, it returns the entry of every candidate.
\<close>

theorem catalog_returns_resolved_most_recent:
  assumes "fst (get_json srv (''https://data.sec.gov/submissions/CIK'' @ cik @ ''.json'') w)
             = Some (FilingHistory rc)"
    and "parallel rc" and "0 \<le> count"
  shows "\<exists>ranked.
       set ranked = set (filter (wanted include_amends include_20f) (feed_entries rc))
     \<and> length ranked = length (filter (wanted include_amends include_20f) (feed_entries rc))
     \<and> sorted_wrt (\<lambda>a b. cand_filing_date b \<le> cand_filing_date a) ranked
     \<and> (\<forall>d. filter (\<lambda>c. cand_filing_date c = d) ranked
             = filter (\<lambda>c. cand_filing_date c = d)
                 (filter (wanted include_amends include_20f) (feed_entries rc)))
     \<and> select_candidates rc count include_amends include_20f = Some (take (nat count) ranked)
     \<and> (length (filter (wanted include_amends include_20f) (feed_entries rc)) = 8 \<and> count = 5
          \<longrightarrow> length (take (nat count) ranked) = 5)
     \<and> (py_int cik = None
          \<longrightarrow> fst (get_annual_filings_html srv cik count include_amends include_20f w) = [])
     \<and> (\<forall>n. py_int cik = Some n \<longrightarrow>
            fst (get_annual_filings_html srv cik count include_amends include_20f w)
              = resolved_entries srv (str_int n) (take (nat count) ranked)
                  (snd (get_json srv (''https://data.sec.gov/submissions/CIK'' @ cik @ ''.json'') w)))
     \<and> (\<forall>n. py_int cik = Some n
              \<and> (\<forall>c \<in> set (take (nat count) ranked). looks_annual (cand_primary_doc c)) \<longrightarrow>
            fst (get_annual_filings_html srv cik count include_amends include_20f w)
              = map (\<lambda>c. filing_of c
                         (folder_url (str_int n) (filter (\<lambda>x. x \<noteq> CHR ''-'') (cand_accession c))
                            @ the (cand_primary_doc c)))
                    (take (nat count) ranked))"
proof -
  let ?xs = "filter (wanted include_amends include_20f) (feed_entries rc)"
  let ?ranked = "sort_reverse cand_filing_date ?xs"
  let ?cs = "take (nat count) ?ranked"
  let ?w1 = "snd (get_json srv (''https://data.sec.gov/submissions/CIK'' @ cik @ ''.json'') w)"
  let ?out = "fst (get_annual_filings_html srv cik count include_amends include_20f w)"
  have sel: "select_candidates rc count include_amends include_20f = Some ?cs"
    by (rule select_candidates_ranked[OF assms(2,3)])
  note out = get_annual_unfold[OF assms(1) sel]
  have eight: "length ?xs = 8 \<and> count = 5 \<longrightarrow> length ?cs = 5"
    by (simp add: sort_reverse_length)
  have none: "py_int cik = None \<longrightarrow> ?out = []"
    by (simp add: out)
  have some: "\<forall>n. py_int cik = Some n \<longrightarrow> ?out = resolved_entries srv (str_int n) ?cs ?w1"
    by (simp add: out resolve_candidates_entries)
  have declared: "\<forall>n. py_int cik = Some n
              \<and> (\<forall>c \<in> set ?cs. looks_annual (cand_primary_doc c)) \<longrightarrow>
            ?out = map (\<lambda>c. filing_of c
                         (folder_url (str_int n) (filter (\<lambda>x. x \<noteq> CHR ''-'') (cand_accession c))
                            @ the (cand_primary_doc c))) ?cs"
    by (simp add: out resolve_candidates_declared)
  show ?thesis
    apply (rule exI[of _ ?ranked])
    apply (intro conjI)
            apply (rule sort_reverse_set)
           apply (rule sort_reverse_length)
          apply (rule sort_reverse_descending)
         apply (simp add: sort_reverse_stable)
        apply (rule sel)
       apply (rule eight)
      apply (rule none)
     apply (rule some)
    apply (rule declared)
    done
qed

theorem catalog_returns_resolved_most_recent_witness:
  "fst (get_json (feed_server named_feed) (''https://data.sec.gov/submissions/CIK'' @ ''0000320193'' @ ''.json'')
          empty_world) = Some (FilingHistory named_feed)
   \<and> parallel named_feed \<and> (0::int) \<le> 5
   \<and> length (filter (wanted True True) (feed_entries named_feed)) = 8
   \<and> map cand_accession (the (select_candidates named_feed 5 True True))
       = [''a-09'', ''a-03'', ''a-05'', ''a-07'', ''a-01'']
   \<and> map f_accession (fst (get_annual_filings_html (feed_server named_feed) ''0000320193'' 5 True True empty_world))
       = [''a-09'', ''a-03'', ''a-05'', ''a-07'', ''a-01'']
   \<and> map f_url (fst (get_annual_filings_html (feed_server named_feed) ''0000320193'' 5 True True empty_world))
       = [''https://www.sec.gov/Archives/edgar/data/320193/a09/a-09_10k.htm'',
          ''https://www.sec.gov/Archives/edgar/data/320193/a03/a-03_10k.htm'',
          ''https://www.sec.gov/Archives/edgar/data/320193/a05/a-05_10k.htm'',
          ''https://www.sec.gov/Archives/edgar/data/320193/a07/a-07_10k.htm'',
          ''https://www.sec.gov/Archives/edgar/data/320193/a01/a-01_10k.htm'']"
proof -
  let ?out = "fst (get_annual_filings_html (feed_server named_feed) ''0000320193'' 5 True True empty_world)"
  let ?mk = "\<lambda>c. filing_of c
      (folder_url (str_int 320193) (filter (\<lambda>x. x \<noteq> CHR ''-'') (cand_accession c))
         @ the (cand_primary_doc c))"
  have g: "fst (get_json (feed_server named_feed) (''https://data.sec.gov/submissions/CIK'' @ ''0000320193'' @ ''.json'')
          empty_world) = Some (FilingHistory named_feed)" by code_simp
  have p: "parallel named_feed" by code_simp
  have z: "(0::int) \<le> 5" by simp
  have e: "length (filter (wanted True True) (feed_entries named_feed)) = 8" by code_simp
  have m: "map cand_accession (the (select_candidates named_feed 5 True True))
       = [''a-09'', ''a-03'', ''a-05'', ''a-07'', ''a-01'']" by code_simp
  have n: "py_int ''0000320193'' = Some 320193" by code_simp
  have la: "\<forall>c \<in> set (the (select_candidates named_feed 5 True True)). looks_annual (cand_primary_doc c)"
    by code_simp
  have a: "map f_accession (map ?mk (the (select_candidates named_feed 5 True True)))
       = [''a-09'', ''a-03'', ''a-05'', ''a-07'', ''a-01'']" by code_simp
  have u: "map f_url (map ?mk (the (select_candidates named_feed 5 True True)))
       = [''https://www.sec.gov/Archives/edgar/data/320193/a09/a-09_10k.htm'',
          ''https://www.sec.gov/Archives/edgar/data/320193/a03/a-03_10k.htm'',
          ''https://www.sec.gov/Archives/edgar/data/320193/a05/a-05_10k.htm'',
          ''https://www.sec.gov/Archives/edgar/data/320193/a07/a-07_10k.htm'',
          ''https://www.sec.gov/Archives/edgar/data/320193/a01/a-01_10k.htm'']" by code_simp
  from catalog_returns_resolved_most_recent[OF g p z, of True True] obtain ranked where
    r: "select_candidates named_feed 5 True True = Some (take (nat 5) ranked)"
    and d: "\<forall>n. py_int ''0000320193'' = Some n
              \<and> (\<forall>c \<in> set (take (nat 5) ranked). looks_annual (cand_primary_doc c)) \<longrightarrow>
            ?out = map (\<lambda>c. filing_of c
                         (folder_url (str_int n) (filter (\<lambda>x. x \<noteq> CHR ''-'') (cand_accession c))
                            @ the (cand_primary_doc c)))
                    (take (nat 5) ranked)"
    by blast
  from r have t: "take (nat 5) ranked = the (select_candidates named_feed 5 True True)" by simp
  from d n la have "?out = map ?mk (the (select_candidates named_feed 5 True True))"
    unfolding t by blast
  with a u have "map f_accession ?out = [''a-09'', ''a-03'', ''a-05'', ''a-07'', ''a-01'']"
    "map f_url ?out
       = [''https://www.sec.gov/Archives/edgar/data/320193/a09/a-09_10k.htm'',
          ''https://www.sec.gov/Archives/edgar/data/320193/a03/a-03_10k.htm'',
          ''https://www.sec.gov/Archives/edgar/data/320193/a05/a-05_10k.htm'',
          ''https://www.sec.gov/Archives/edgar/data/320193/a07/a-07_10k.htm'',
          ''https://www.sec.gov/Archives/edgar/data/320193/a01/a-01_10k.htm'']"
    by simp_all
  with g p z e m show ?thesis by (intro conjI)
qed

text \<open>
  C5, as stated, fails: with eight matching entries in the feed and \<open>N = 5\<close>, a server
  that has the feed, an empty listing and no bundle makes every resolution fail, and
  nothing is returned.
\<close>

theorem catalog_unresolved_counterexample:
  "parallel example_feed
   \<and> length (filter (wanted True True) (feed_entries example_feed)) = 8
   \<and> length (the (select_candidates example_feed 5 True True)) = 5
   \<and> fst (get_json (feed_server example_feed) ''https://data.sec.gov/submissions/CIK0000320193.json''
            empty_world) = Some (FilingHistory example_feed)
   \<and> fst (get_annual_filings_html (feed_server example_feed) ''0000320193'' 5 True True empty_world) = []"
  by code_simp

section \<open>The exhibit fetcher\<close>

















text \<open>
  A run in which writing a downloaded file raises ends with the exception, and the index
  page is not written.
\<close>

lemma download_write_error_skips_index:
  "fst (download_exhibits mirror_server ''320193'' ''000032019323000106'' out_dir EXHIBIT_EXTS
         (empty_world\<lparr>write_fails := (\<lambda>p. p = ''out/index.html'')\<rparr>)) = Inl OSError
   \<and> files (snd (download_exhibits mirror_server ''320193'' ''000032019323000106'' out_dir
                   EXHIBIT_EXTS (empty_world\<lparr>write_fails := (\<lambda>p. p = ''out/index.html'')\<rparr>)))
        ''out/filing_index.html'' = None"
  by code_simp

section \<open>Ticker matching\<close>

lemma upper_of_lower_char: "upper_char (lower_char c) = upper_char c"
  by (auto simp: lower_char_def upper_char_def upper_letters_def lower_letters_def)

lemma upper_char_period: "upper_char c = CHR ''.'' \<longleftrightarrow> c = CHR ''.''"
  by (auto simp: upper_char_def upper_letters_def lower_letters_def)

lemma lower_char_period: "lower_char c = CHR ''.'' \<longleftrightarrow> c = CHR ''.''"
  by (auto simp: lower_char_def upper_letters_def lower_letters_def)

lemma norm_ticker_via_lower:
  "norm_ticker s = upper (filter (\<lambda>c. c \<noteq> CHR ''.'') (lower s))"
proof -
  have u: "filter (\<lambda>c. c \<noteq> CHR ''.'') (map upper_char xs)
      = map upper_char (filter (\<lambda>c. c \<noteq> CHR ''.'') xs)" for xs
    by (induction xs) (auto simp: upper_char_period)
  have l: "filter (\<lambda>c. c \<noteq> CHR ''.'') (map lower_char xs)
      = map lower_char (filter (\<lambda>c. c \<noteq> CHR ''.'') xs)" for xs
    by (induction xs) (auto simp: lower_char_period)
  have ul: "map upper_char (map lower_char xs) = map upper_char xs" for xs
    by (induction xs) (auto simp: upper_of_lower_char)
  have "norm_ticker s = map upper_char (filter (\<lambda>c. c \<noteq> CHR ''.'') s)"
    unfolding norm_ticker_def upper_def by (rule u)
  also have "\<dots> = map upper_char (map lower_char (filter (\<lambda>c. c \<noteq> CHR ''.'') s))"
    by (rule ul[symmetric])
  also have "\<dots> = upper (filter (\<lambda>c. c \<noteq> CHR ''.'') (lower s))"
    unfolding upper_def lower_def l ..
  finally show ?thesis .
qed

text \<open>
  C8, as amended. Two tickers that differ only in letter case and in periods resolve to
  the same result, on every identifier table and whatever the server answers.
\<close>

theorem ticker_match_ignores_case_and_periods:
  assumes "same_but_case_and_periods s t"
  shows "get_cik_from_ticker srv s w = get_cik_from_ticker srv t w"
proof -
  from assms have "norm_ticker s = norm_ticker t"
    by (simp add: norm_ticker_via_lower same_but_case_and_periods_def)
  then show ?thesis unfolding get_cik_from_ticker_def by (simp only:)
qed

theorem ticker_match_ignores_case_and_periods_witness:
  "same_but_case_and_periods ''BRK.B'' ''brkb''
   \<and> fst (get_cik_from_ticker ticker_server ''brkb'' empty_world)
       = Some (''0001067983'', ''BERKSHIRE HATHAWAY INC'')
   \<and> fst (get_cik_from_ticker ticker_server ''BRK.B'' empty_world)
       = Some (''0001067983'', ''BERKSHIRE HATHAWAY INC'')"
proof -
  have h: "same_but_case_and_periods ''BRK.B'' ''brkb''" by code_simp
  have e: "fst (get_cik_from_ticker ticker_server ''brkb'' empty_world)
       = Some (''0001067983'', ''BERKSHIRE HATHAWAY INC'')" by code_simp
  from ticker_match_ignores_case_and_periods[OF h, of ticker_server empty_world] e h
  show ?thesis by simp
qed

text \<open>
  C8, as stated, fails: \<open>BF.B\<close> and \<open>BF-B\<close> differ only in punctuation, but only the
  period is removed, and against a table that lists \<open>BF-B\<close> the first finds nothing.
\<close>

theorem ticker_punctuation_counterexample:
  "same_but_case_and_punctuation ''BF.B'' ''BF-B''
   \<and> fst (get_cik_from_ticker ticker_server ''BF.B'' empty_world) = None
   \<and> fst (get_cik_from_ticker ticker_server ''BF-B'' empty_world)
       = Some (''0000014693'', ''BROWN FORMAN CORP'')"
  by code_simp

section \<open>Retries\<close>
















end
